theory Spec2Isabelle
  imports Main "HOL-Library.Sublist"
begin

section \<open>Python strings and lists\<close>

text \<open>
  A Python \<open>str\<close> is modelled as a HOL \<open>string\<close>, one \<open>char\<close> for one character of
  the \<open>str\<close>. The fixed Russian message texts of the source are written in Latin
  transliteration, since a HOL string literal is ASCII; no function below inspects them.
\<close>

definition isspace :: "char \<Rightarrow> bool" where
  \<comment> \<open>the characters below 256 that \<open>str.isspace\<close> accepts; \<open>strip()\<close> and \<open>split()\<close> use them\<close>
  "isspace c = ((of_char c :: nat) \<in> {9, 10, 11, 12, 13, 28, 29, 30, 31, 32, 133, 160})"

definition strip :: "string \<Rightarrow> string" where
  "strip s = rev (dropWhile isspace (rev (dropWhile isspace s)))"

fun split_on :: "char \<Rightarrow> string \<Rightarrow> string \<Rightarrow> string list" where
  \<comment> \<open>\<open>s.split(sep)\<close> is \<open>split_on sep [] s\<close>; the second argument is the piece being read\<close>
  "split_on sep cur [] = [cur]"
| "split_on sep cur (c # cs) =
     (if c = sep then cur # split_on sep [] cs else split_on sep (cur @ [c]) cs)"

fun split_ws :: "string \<Rightarrow> string \<Rightarrow> string list" where
  \<comment> \<open>\<open>s.split()\<close> is \<open>split_ws [] s\<close>: runs of whitespace separate, no empty pieces\<close>
  "split_ws cur [] = (if cur = [] then [] else [cur])"
| "split_ws cur (c # cs) =
     (if isspace c then (if cur = [] then split_ws [] cs else cur # split_ws [] cs)
      else split_ws (cur @ [c]) cs)"

fun join :: "string \<Rightarrow> string list \<Rightarrow> string" where
  "join sep [] = []"
| "join sep [x] = x"
| "join sep (x # y # ys) = x @ sep @ join sep (y # ys)"

definition lower_char :: "char \<Rightarrow> char" where
  \<comment> \<open>\<open>str.lower\<close> on one character below 256\<close>
  "lower_char c =
     (let n = (of_char c :: nat)
      in if (65 \<le> n \<and> n \<le> 90) \<or> (192 \<le> n \<and> n \<le> 214) \<or> (216 \<le> n \<and> n \<le> 222)
         then char_of (n + 32) else c)"

definition lower :: "string \<Rightarrow> string" where
  "lower s = map lower_char s"

fun starts_with :: "string \<Rightarrow> string \<Rightarrow> bool" where
  "starts_with [] s = True"
| "starts_with (p # ps) [] = False"
| "starts_with (p # ps) (c # cs) = (p = c \<and> starts_with ps cs)"

fun contains :: "string \<Rightarrow> string \<Rightarrow> bool" where
  \<comment> \<open>\<open>sub in s\<close> is \<open>contains sub s\<close>\<close>
  "contains sub [] = (sub = [])"
| "contains sub (c # cs) = (starts_with sub (c # cs) \<or> contains sub cs)"

definition slice_to :: "int \<Rightarrow> 'a list \<Rightarrow> 'a list" where
  \<comment> \<open>\<open>xs[:b]\<close>: a negative bound counts from the end\<close>
  "slice_to b xs = (if 0 \<le> b then take (nat b) xs else take (length xs - nat (- b)) xs)"

definition slice_from_neg :: "nat \<Rightarrow> 'a list \<Rightarrow> 'a list" where
  \<comment> \<open>\<open>xs[-k:]\<close> for a positive literal \<open>k\<close>: the last \<open>k\<close> elements, all of them when fewer\<close>
  "slice_from_neg k xs = drop (length xs - k) xs"

section \<open>The outside world\<close>

text \<open>
  The language model, the search provider, the HTTP client and the two parsing libraries
  are not part of the repository. Each call to the network is a function of a world state
  \<open>'w\<close>, which it may change, so that two calls with the same arguments may differ; the
  two parsers are functions of their input.
\<close>

datatype model = Model_search | Model_analyze | Model_report

datatype prompt =
    Search_prompt string "string list" int
      \<comment> \<open>the f-string of \<open>generate_search_queries\<close>: context, the learnings shown, breadth\<close>
  | Analyze_prompt string "string list" string
      \<comment> \<open>the f-string of \<open>summarize_and_find_directions\<close>: context, learnings, text\<close>
  | Report_prompt string "string list"
      \<comment> \<open>the f-string of \<open>generate_final_report\<close>: query, learnings\<close>

datatype api_outcome =
    Api_exception
      \<comment> \<open>\<open>generate_content_async\<close>, or reading the response, raised\<close>
  | No_parts
      \<comment> \<open>\<open>response.parts\<close> is empty: the answer was blocked\<close>
  | Parts string
      \<comment> \<open>\<open>response.text\<close>\<close>

record ddgs_outcome =
  items :: "string option list"
    \<comment> \<open>the results in order; \<open>Some href\<close> for a dict with the key \<open>href\<close>, \<open>None\<close> otherwise\<close>
  raised :: bool
    \<comment> \<open>whether the provider raised after these results\<close>

datatype http_outcome =
    Request_error
      \<comment> \<open>\<open>httpx.RequestError\<close>: timeout, DNS, connection\<close>
  | Other_exception
  | Response nat "string option" string
      \<comment> \<open>status code, the \<open>content-type\<close> header, \<open>response.text\<close>\<close>

datatype soup_outcome =
    Soup_exception
  | Soup "string list option"
      \<comment> \<open>after the unwanted elements are removed: \<open>None\<close> when there is no \<open>body\<close>, else
          \<open>get_text(separator=' ', strip=True)\<close> of each p, h1..h6 and li in it, in order\<close>

datatype json_field = Not_a_list | List_of "string list"
  \<comment> \<open>\<open>Not_a_list\<close>: the key is missing or its value is no list; the elements of a list
      are strings, as the annotation \<open>Dict[str, List[str]]\<close> of the source says\<close>

datatype json_outcome =
    JSON_decode_error
  | JSON_other_exception
  | Not_a_dict
  | Dict json_field json_field
      \<comment> \<open>a dict: what \<open>get("learnings")\<close> and \<open>get("directions")\<close> are\<close>

record 'w env =
  generate_content_async :: "model \<Rightarrow> prompt \<Rightarrow> 'w \<Rightarrow> api_outcome \<times> 'w"
  ddgs_text :: "string \<Rightarrow> nat \<Rightarrow> 'w \<Rightarrow> ddgs_outcome \<times> 'w"
  client_get :: "string \<Rightarrow> 'w \<Rightarrow> http_outcome \<times> 'w"
  json_loads :: "string \<Rightarrow> json_outcome"
  beautiful_soup :: "string \<Rightarrow> soup_outcome"

datatype event =
    Depth nat
  | Gemini_call model prompt api_outcome
  | Ddgs_text string nat
  | Client_get string

text \<open>
  The runtime: the world, the list objects of the Python heap that hold learnings (a
  reference is an index), and a trace of the calls made. The trace is only written, never
  read, by the functions below.
\<close>

record 'w runtime =
  world :: 'w
  heap :: "string list list"
  trace :: "event list"

definition emit :: "event \<Rightarrow> 'w runtime \<Rightarrow> 'w runtime" where
  "emit e s = s\<lparr>trace := trace s @ [e]\<rparr>"

definition alloc :: "string list \<Rightarrow> 'w runtime \<Rightarrow> nat \<times> 'w runtime" where
  "alloc xs s = (length (heap s), s\<lparr>heap := heap s @ [xs]\<rparr>)"

definition list_extend :: "nat \<Rightarrow> string list \<Rightarrow> 'w runtime \<Rightarrow> 'w runtime" where
  \<comment> \<open>\<open>r.extend(xs)\<close> on the list object at reference \<open>r\<close>\<close>
  "list_extend r xs s = s\<lparr>heap := (heap s)[r := heap s ! r @ xs]\<rparr>"

fun gather :: "('a \<Rightarrow> 's \<Rightarrow> 'b \<times> 's) \<Rightarrow> 'a list \<Rightarrow> 's \<Rightarrow> 'b list \<times> 's" where
  \<comment> \<open>\<open>asyncio.gather\<close> of one task per element: the results come back in the order of the
      tasks; the tasks are run one after the other\<close>
  "gather f [] s = ([], s)"
| "gather f (x # xs) s =
     (case f x s of (y, s1) \<Rightarrow> (case gather f xs s1 of (ys, s2) \<Rightarrow> (y # ys, s2)))"

section \<open>utils/llm.py\<close>

datatype error = Gemini_error model
  \<comment> \<open>the exception that \<open>_call_gemini_api\<close> logs and raises again\<close>

definition call_gemini_api ::
  "'w env \<Rightarrow> prompt \<Rightarrow> model \<Rightarrow> 'w runtime \<Rightarrow> (error + string) \<times> 'w runtime" where
  "call_gemini_api env p m s =
     (case generate_content_async env m p (world s) of (out, w) \<Rightarrow>
        (let s1 = emit (Gemini_call m p out) (s\<lparr>world := w\<rparr>)
         in case out of
              Api_exception \<Rightarrow> (Inl (Gemini_error m), s1)
            | No_parts \<Rightarrow> (Inr [], s1)
            | Parts t \<Rightarrow> (Inr t, s1)))"

definition parse_queries :: "string \<Rightarrow> string list" where
  \<comment> \<open>\<open>[q.strip() for q in response_text.split('\n') if q.strip()]\<close>\<close>
  "parse_queries response_text =
     map strip (filter (\<lambda>q. strip q \<noteq> []) (split_on (CHR 0x0A) [] response_text))"

definition generate_search_queries ::
  "'w env \<Rightarrow> string \<Rightarrow> string list \<Rightarrow> int \<Rightarrow> 'w runtime \<Rightarrow> (error + string list) \<times> 'w runtime" where
  "generate_search_queries env context learnings breadth s =
     (case call_gemini_api env
             (Search_prompt context (slice_from_neg 5 learnings) breadth) Model_search s of
        (Inl e, s1) \<Rightarrow> (Inl e, s1)
      | (Inr response_text, s1) \<Rightarrow> (Inr (slice_to breadth (parse_queries response_text)), s1))"

record summary =
  learnings_key :: "string list"
  directions_key :: "string list"

definition max_input_chars :: nat where
  "max_input_chars = 30000"

definition parse_summary :: "'w env \<Rightarrow> string \<Rightarrow> summary" where
  \<comment> \<open>the \<open>try\<close> block of \<open>summarize_and_find_directions\<close>\<close>
  "parse_summary env response_text =
     (case json_loads env response_text of
        Dict (List_of ls) (List_of ds) \<Rightarrow> \<lparr>learnings_key = ls, directions_key = ds\<rparr>
      | Dict _ _ \<Rightarrow> \<lparr>learnings_key = [], directions_key = []\<rparr>
      | Not_a_dict \<Rightarrow> \<lparr>learnings_key = [], directions_key = []\<rparr>
      | JSON_decode_error \<Rightarrow> \<lparr>learnings_key = [], directions_key = []\<rparr>
      | JSON_other_exception \<Rightarrow> \<lparr>learnings_key = [], directions_key = []\<rparr>)"

definition summarize_and_find_directions ::
  "'w env \<Rightarrow> string \<Rightarrow> string list \<Rightarrow> string \<Rightarrow> 'w runtime \<Rightarrow> (error + summary) \<times> 'w runtime" where
  "summarize_and_find_directions env context learnings text_to_analyze s =
     (let text_to_analyze =
            (if length text_to_analyze > max_input_chars
             then take max_input_chars text_to_analyze else text_to_analyze)
      in case call_gemini_api env
                (Analyze_prompt context learnings text_to_analyze) Model_analyze s of
           (Inl e, s1) \<Rightarrow> (Inl e, s1)
         | (Inr response_text, s1) \<Rightarrow> (Inr (parse_summary env response_text), s1))"

definition no_information_report :: "string \<Rightarrow> string" where
  "no_information_report query =
     ''# Issledovanie po zaprosu: '' @ query @ [CHR 0x0A, CHR 0x0A]
       @ ''Ne udalos sobrat informatsiyu po dannomu zaprosu.''"

definition fallback_report :: "string list \<Rightarrow> string" where
  "fallback_report all_learnings =
     ''# Otchet ne sgenerirovan'' @ [CHR 0x0A, CHR 0x0A]
       @ ''Gemini ne vernul tekst otcheta.'' @ [CHR 0x0A, CHR 0x0A]
       @ ''Sobrannye vyvody:'' @ [CHR 0x0A]
       @ join [CHR 0x0A] (map (\<lambda>l. ''- '' @ l) all_learnings)"

definition generate_final_report ::
  "'w env \<Rightarrow> string \<Rightarrow> string list \<Rightarrow> 'w runtime \<Rightarrow> (error + string) \<times> 'w runtime" where
  "generate_final_report env query all_learnings s =
     (if all_learnings = [] then (Inr (no_information_report query), s)
      else case call_gemini_api env (Report_prompt query all_learnings) Model_report s of
             (Inl e, s1) \<Rightarrow> (Inl e, s1)
           | (Inr report, s1) \<Rightarrow>
               (Inr (if report \<noteq> [] then report else fallback_report all_learnings), s1))"

section \<open>utils/search.py\<close>

fun collect_hrefs :: "nat \<Rightarrow> string option list \<Rightarrow> string list \<Rightarrow> string list" where
  \<comment> \<open>the \<open>for r in results\<close> loop, with its \<open>break\<close>\<close>
  "collect_hrefs num_results [] urls = urls"
| "collect_hrefs num_results (None # rs) urls = collect_hrefs num_results rs urls"
| "collect_hrefs num_results (Some href # rs) urls =
     (if length (urls @ [href]) \<ge> num_results then urls @ [href]
      else collect_hrefs num_results rs (urls @ [href]))"

definition find_urls ::
  "'w env \<Rightarrow> string \<Rightarrow> nat \<Rightarrow> 'w runtime \<Rightarrow> string list \<times> 'w runtime" where
  \<comment> \<open>an exception of the provider is caught and logged: the URLs read so far are
      returned whether \<open>raised\<close> holds or not\<close>
  "find_urls env query num_results s =
     (case ddgs_text env query (num_results * 2) (world s) of (out, w) \<Rightarrow>
        (collect_hrefs num_results (items out) [],
         emit (Ddgs_text query (num_results * 2)) (s\<lparr>world := w\<rparr>)))"

section \<open>utils/scraper.py\<close>

record scraped =
  url_key :: string
  text_key :: string

text \<open>
  Modelled from the spec: \<open>Response.raise_for_status\<close> belongs to the HTTP client library,
  which is not in the repository; the Content Extractor rejects any non-2xx HTTP status.
  \<open>True\<close> stands for raising \<open>HTTPStatusError\<close>.
\<close>

definition raise_for_status :: "nat \<Rightarrow> bool" where
  "raise_for_status status = (\<not> (200 \<le> status \<and> status < 300))"

definition extract_text :: "string list \<Rightarrow> string" where
  \<comment> \<open>\<open>tag_texts\<close>: the \<open>get_text\<close> of each tag found in the body\<close>
  "extract_text tag_texts =
     (let text_parts = filter (\<lambda>cleaned_text. cleaned_text \<noteq> [])
                         (map (\<lambda>t. join '' '' (split_ws [] t)) tag_texts)
      in join [CHR 0x0A] text_parts)"

definition scrape_content ::
  "'w env \<Rightarrow> string \<Rightarrow> 'w runtime \<Rightarrow> scraped option \<times> 'w runtime" where
  "scrape_content env url s =
     (case client_get env url (world s) of (out, w) \<Rightarrow>
        (case out of
           Request_error \<Rightarrow> None
         | Other_exception \<Rightarrow> None
         | Response status header html_content \<Rightarrow>
             if raise_for_status status then None
             else let content_type = lower (case header of None \<Rightarrow> [] | Some c \<Rightarrow> c)
                  in if \<not> contains ''html'' content_type then None
                     else (case beautiful_soup env html_content of
                             Soup_exception \<Rightarrow> None
                           | Soup None \<Rightarrow> None
                           | Soup (Some tag_texts) \<Rightarrow>
                               (let extracted_text = extract_text tag_texts
                                in if extracted_text = [] then None
                                   else Some \<lparr>url_key = url, text_key = extracted_text\<rparr>)),
         emit (Client_get url) (s\<lparr>world := w\<rparr>)))"

section \<open>research_logic.py\<close>

datatype 'a task_result = Returned 'a | Raised
  \<comment> \<open>an element of \<open>gather(..., return_exceptions=True)\<close>\<close>

definition scrape_task ::
  "'w env \<Rightarrow> string \<Rightarrow> 'w runtime \<Rightarrow> scraped option task_result \<times> 'w runtime" where
  \<comment> \<open>\<open>scrape_content\<close> catches every exception, so its task always returns\<close>
  "scrape_task env url s = (case scrape_content env url s of (r, s1) \<Rightarrow> (Returned r, s1))"

fun add_new_urls :: "string list \<Rightarrow> string list \<times> string set \<Rightarrow> string list \<times> string set" where
  \<comment> \<open>\<open>for url in urls\<close> on the pair \<open>(urls_to_scrape, visited_urls)\<close>\<close>
  "add_new_urls [] acc = acc"
| "add_new_urls (url # urls) (to_scrape, visited) =
     (if url \<notin> visited then add_new_urls urls (to_scrape @ [url], insert url visited)
      else add_new_urls urls (to_scrape, visited))"

fun add_new_results ::
  "string list list \<Rightarrow> string list \<times> string set \<Rightarrow> string list \<times> string set" where
  \<comment> \<open>\<open>for urls in results\<close>\<close>
  "add_new_results [] acc = acc"
| "add_new_results (urls # results) acc = add_new_results results (add_new_urls urls acc)"

fun collect_scraped ::
  "scraped option task_result list \<Rightarrow> scraped list \<times> string list \<Rightarrow> scraped list \<times> string list" where
  \<comment> \<open>\<open>for result in scraped_results\<close> on the pair \<open>(scraped_data, successful_urls)\<close>\<close>
  "collect_scraped [] acc = acc"
| "collect_scraped (Returned (Some result) # rs) (data, successful) =
     (if text_key result \<noteq> []
      then collect_scraped rs (data @ [result], successful @ [url_key result])
      else collect_scraped rs (data, successful))"
| "collect_scraped (Returned None # rs) acc = collect_scraped rs acc"
| "collect_scraped (Raised # rs) acc = collect_scraped rs acc"

definition separator :: string where
  "separator = [CHR 0x0A, CHR 0x0A] @ ''---'' @ [CHR 0x0A, CHR 0x0A]"

record locals =
  visited_urls :: "string set"
  all_sources :: "string list"
  final_directions :: "string list"

definition research_step ::
  "'w env \<Rightarrow> string \<Rightarrow> nat \<Rightarrow> int \<Rightarrow> nat \<Rightarrow> locals \<Rightarrow> 'w runtime \<Rightarrow> (error + locals) \<times> 'w runtime" where
  \<comment> \<open>the body of \<open>for i in range(depth)\<close>; \<open>all_learnings\<close> is the reference of the list\<close>
  "research_step env current_query_context all_learnings breadth i st s =
     (case generate_search_queries env current_query_context (heap s ! all_learnings) breadth
             (emit (Depth i) s) of
        (Inl e, s1) \<Rightarrow> (Inl e, s1)
      | (Inr search_queries, s1) \<Rightarrow>
         (case gather (\<lambda>query. find_urls env query 2) search_queries s1 of (results, s2) \<Rightarrow>
          (case add_new_results results ([], visited_urls st) of (urls_to_scrape, visited) \<Rightarrow>
             if urls_to_scrape = [] then (Inr (st\<lparr>visited_urls := visited\<rparr>), s2)
             else
              (case gather (scrape_task env) urls_to_scrape s2 of (scraped_results, s3) \<Rightarrow>
               (case collect_scraped scraped_results ([], []) of (scraped_data, successful_urls) \<Rightarrow>
                  if scraped_data = [] then (Inr (st\<lparr>visited_urls := visited\<rparr>), s3)
                  else
                   (case summarize_and_find_directions env current_query_context
                           (heap s3 ! all_learnings)
                           (join separator (map text_key scraped_data)) s3 of
                      (Inl e, s4) \<Rightarrow> (Inl e, s4)
                    | (Inr summary_and_directions, s4) \<Rightarrow>
                        (Inr (st\<lparr>visited_urls := visited,
                                 all_sources := all_sources st @ successful_urls,
                                 final_directions := directions_key summary_and_directions\<rparr>),
                         list_extend all_learnings (learnings_key summary_and_directions) s4)))))))"

fun research_loop ::
  "'w env \<Rightarrow> string \<Rightarrow> nat \<Rightarrow> int \<Rightarrow> nat list \<Rightarrow> locals \<Rightarrow> 'w runtime
     \<Rightarrow> (error + locals) \<times> 'w runtime" where
  "research_loop env context all_learnings breadth [] st s = (Inr st, s)"
| "research_loop env context all_learnings breadth (i # is) st s =
     (case research_step env context all_learnings breadth i st s of
        (Inl e, s1) \<Rightarrow> (Inl e, s1)
      | (Inr st1, s1) \<Rightarrow> research_loop env context all_learnings breadth is st1 s1)"

definition start_session :: "nat option \<Rightarrow> 'w \<Rightarrow> string list list \<Rightarrow> nat \<times> 'w runtime" where
  \<comment> \<open>lines 17 to 20: the reference of \<open>all_learnings\<close>, a new list object, and the runtime\<close>
  "start_session existing_learnings w h =
     (case (case existing_learnings of
              None \<Rightarrow> alloc [] \<lparr>world = w, heap = h, trace = []\<rparr>
            | Some r \<Rightarrow> (r, \<lparr>world = w, heap = h, trace = []\<rparr>)) of
        (existing, s) \<Rightarrow> alloc (heap s ! existing) s)"

definition research_iterations ::
  "'w env \<Rightarrow> string \<Rightarrow> nat \<Rightarrow> int \<Rightarrow> nat option \<Rightarrow> 'w \<Rightarrow> string list list
     \<Rightarrow> nat \<times> (error + locals) \<times> 'w runtime" where
  \<comment> \<open>lines 17 to 92 with the loop run \<open>n\<close> times\<close>
  "research_iterations env initial_query n breadth existing_learnings w h =
     (case start_session existing_learnings w h of (all_learnings, s) \<Rightarrow>
        (all_learnings,
         research_loop env initial_query all_learnings breadth [0..<n]
           \<lparr>visited_urls = {}, all_sources = [], final_directions = []\<rparr> s))"

record research_result =
  result_report :: string
  result_sources :: "string set"
    \<comment> \<open>\<open>list(set(all_sources))\<close>: each source once, in no specified order\<close>
  result_learnings :: nat
    \<comment> \<open>the reference of \<open>all_learnings\<close>\<close>
  result_directions :: "string list"

definition perform_deep_research ::
  "'w env \<Rightarrow> string \<Rightarrow> int \<Rightarrow> int \<Rightarrow> nat option \<Rightarrow> 'w \<Rightarrow> string list list
     \<Rightarrow> (error + research_result) \<times> 'w runtime" where
  "perform_deep_research env initial_query depth breadth existing_learnings w h =
     (case research_iterations env initial_query (nat depth) breadth existing_learnings w h of
        (all_learnings, Inl e, s) \<Rightarrow> (Inl e, s)
      | (all_learnings, Inr st, s) \<Rightarrow>
          (case generate_final_report env initial_query (heap s ! all_learnings) s of
             (Inl e, s1) \<Rightarrow> (Inl e, s1)
           | (Inr final_report, s1) \<Rightarrow>
               (Inr \<lparr>result_report = final_report,
                     result_sources = set (all_sources st),
                     result_learnings = all_learnings,
                     result_directions = final_directions st\<rparr>, s1)))"

section \<open>A scripted world\<close>

text \<open>
  A world for running the program on concrete inputs: the answers of the model, of the
  search provider and of the HTTP client are read off three scripts, one answer per call.
  When its script is used up the model answers without parts, the provider with no
  result and the client with a request error. The JSON parser knows two documents, and an
  HTML page is one paragraph holding its text.
\<close>

type_synonym script = "api_outcome list \<times> string option list list \<times> http_outcome list"

definition script_json :: "string \<Rightarrow> json_outcome" where
  "script_json t =
     (if t = ''A'' then Dict (List_of [''finding a'']) (List_of [''direction a''])
      else if t = ''B'' then Dict (List_of [''finding b'']) (List_of [''direction b''])
      else if t = ''C'' then Dict Not_a_list (List_of [''direction c''])
      else JSON_decode_error)"

definition scripted :: "script env" where
  "scripted =
     \<lparr>generate_content_async = (\<lambda>m p (a, d, c).
          case a of [] \<Rightarrow> (No_parts, (a, d, c)) | x # xs \<Rightarrow> (x, (xs, d, c))),
      ddgs_text = (\<lambda>q n (a, d, c).
          case d of [] \<Rightarrow> (\<lparr>items = [], raised = True\<rparr>, (a, d, c))
                  | x # xs \<Rightarrow> (\<lparr>items = x, raised = False\<rparr>, (a, xs, c))),
      client_get = (\<lambda>u (a, d, c).
          case c of [] \<Rightarrow> (Request_error, (a, d, c)) | x # xs \<Rightarrow> (x, (a, d, xs))),
      json_loads = script_json,
      beautiful_soup = (\<lambda>html. Soup (Some [html]))\<rparr>"

definition steady :: "script env" where
  \<comment> \<open>the scripted world with a model that never raises: it answers without parts instead\<close>
  "steady = scripted\<lparr>generate_content_async := (\<lambda>m p (a, d, c).
       case a of [] \<Rightarrow> (No_parts, (a, d, c))
               | x # xs \<Rightarrow> (if x = Api_exception then No_parts else x, (xs, d, c)))\<rparr>"

definition page :: "string \<Rightarrow> http_outcome" where
  "page t = Response 200 (Some ''text/html; charset=utf-8'') t"

section \<open>Reading a trace\<close>

definition answer_text :: "api_outcome \<Rightarrow> string" where
  \<comment> \<open>what \<open>_call_gemini_api\<close> returns for an answer that did not raise\<close>
  "answer_text out = (case out of Parts t \<Rightarrow> t | _ \<Rightarrow> [])"

fun fetched :: "event list \<Rightarrow> string list" where
  \<comment> \<open>the URLs given to \<open>scrape_content\<close>, in order\<close>
  "fetched [] = []"
| "fetched (Client_get url # tr) = url # fetched tr"
| "fetched (_ # tr) = fetched tr"

fun iterations :: "event list \<Rightarrow> nat" where
  \<comment> \<open>how many times the loop body was entered\<close>
  "iterations [] = 0"
| "iterations (Depth i # tr) = Suc (iterations tr)"
| "iterations (_ # tr) = iterations tr"

fun calls_of :: "model \<Rightarrow> event list \<Rightarrow> api_outcome list" where
  \<comment> \<open>the answers to the calls made to one model, in order\<close>
  "calls_of m [] = []"
| "calls_of m (Gemini_call m' p out # tr) =
     (if m' = m then out # calls_of m tr else calls_of m tr)"
| "calls_of m (_ # tr) = calls_of m tr"

definition syntheses :: "'w env \<Rightarrow> event list \<Rightarrow> summary list" where
  \<comment> \<open>what each completed call of \<open>summarize_and_find_directions\<close> returned, in order\<close>
  "syntheses env tr =
     map (\<lambda>out. parse_summary env (answer_text out))
       (filter (\<lambda>out. out \<noteq> Api_exception) (calls_of Model_analyze tr))"

definition learnings_after ::
  "'w env \<Rightarrow> string \<Rightarrow> int \<Rightarrow> nat option \<Rightarrow> 'w \<Rightarrow> string list list \<Rightarrow> nat \<Rightarrow> string list" where
  \<comment> \<open>the contents of \<open>all_learnings\<close> once the loop body has been entered \<open>n\<close> times\<close>
  "learnings_after env initial_query breadth existing_learnings w h n =
     (case research_iterations env initial_query n breadth existing_learnings w h of
        (all_learnings, r, s) \<Rightarrow> heap s ! all_learnings)"

definition scraped_from :: "string set \<Rightarrow> scraped option task_result \<Rightarrow> bool" where
  \<comment> \<open>a document among the results of a batch carries one of the URLs of the batch\<close>
  "scraped_from U r = (case r of Returned (Some d) \<Rightarrow> url_key d \<in> U | _ \<Rightarrow> True)"

fun gemini_raised :: "event list \<Rightarrow> bool" where
  \<comment> \<open>whether some call to the model raised\<close>
  "gemini_raised [] = False"
| "gemini_raised (Gemini_call m p out # tr) = (out = Api_exception \<or> gemini_raised tr)"
| "gemini_raised (_ # tr) = gemini_raised tr"

section \<open>What each call does to the runtime\<close>

lemma fetched_append [simp]: "fetched (xs @ ys) = fetched xs @ fetched ys"
  by (induction xs rule: fetched.induct) auto

lemma iterations_append [simp]: "iterations (xs @ ys) = iterations xs + iterations ys"
  by (induction xs rule: iterations.induct) auto

lemma calls_of_append [simp]: "calls_of m (xs @ ys) = calls_of m xs @ calls_of m ys"
  by (induction m xs rule: calls_of.induct) auto

lemma call_gemini_api_spec:
  "call_gemini_api env p m s = (r, s1) \<Longrightarrow>
     heap s1 = heap s
     \<and> trace s1 = trace s @ [Gemini_call m p (fst (generate_content_async env m p (world s)))]
     \<and> r = (case fst (generate_content_async env m p (world s)) of
              Api_exception \<Rightarrow> Inl (Gemini_error m) | No_parts \<Rightarrow> Inr [] | Parts t \<Rightarrow> Inr t)"
  by (auto simp: call_gemini_api_def emit_def Let_def split: prod.splits api_outcome.splits)

lemma generate_search_queries_spec:
  "generate_search_queries env c ls b s = (r, s1) \<Longrightarrow>
     \<exists>p out. out = fst (generate_content_async env Model_search p (world s))
       \<and> heap s1 = heap s
       \<and> trace s1 = trace s @ [Gemini_call Model_search p out]
       \<and> (if out = Api_exception then r = Inl (Gemini_error Model_search)
          else r = Inr (slice_to b (parse_queries (answer_text out))))"
  unfolding generate_search_queries_def
  by (auto simp: answer_text_def split: prod.splits sum.splits api_outcome.splits
      dest!: call_gemini_api_spec)

lemma summarize_and_find_directions_spec:
  "summarize_and_find_directions env c ls t s = (r, s1) \<Longrightarrow>
     \<exists>p out. out = fst (generate_content_async env Model_analyze p (world s))
       \<and> heap s1 = heap s
       \<and> trace s1 = trace s @ [Gemini_call Model_analyze p out]
       \<and> (if out = Api_exception then r = Inl (Gemini_error Model_analyze)
          else r = Inr (parse_summary env (answer_text out)))"
  unfolding summarize_and_find_directions_def Let_def
  by (auto simp: answer_text_def split: prod.splits sum.splits api_outcome.splits
      dest!: call_gemini_api_spec)

lemma generate_final_report_spec:
  "generate_final_report env q ls s = (r, s1) \<Longrightarrow>
     (ls = [] \<and> s1 = s \<and> r = Inr (no_information_report q))
     \<or> (ls \<noteq> [] \<and> (\<exists>out. out = fst (generate_content_async env Model_report (Report_prompt q ls) (world s))
           \<and> heap s1 = heap s
           \<and> trace s1 = trace s @ [Gemini_call Model_report (Report_prompt q ls) out]
           \<and> (if out = Api_exception then r = Inl (Gemini_error Model_report)
              else if answer_text out = [] then r = Inr (fallback_report ls)
              else r = Inr (answer_text out))))"
  unfolding generate_final_report_def
  by (auto simp: answer_text_def split: prod.splits sum.splits api_outcome.splits if_splits
      dest!: call_gemini_api_spec)

lemma find_urls_spec:
  "find_urls env q n s = (urls, s1) \<Longrightarrow>
     heap s1 = heap s \<and> trace s1 = trace s @ [Ddgs_text q (n * 2)]"
  by (auto simp: find_urls_def emit_def split: prod.splits)

lemma gather_find_urls_spec:
  "gather (\<lambda>q. find_urls env q n) qs s = (results, s1) \<Longrightarrow>
     heap s1 = heap s \<and> trace s1 = trace s @ map (\<lambda>q. Ddgs_text q (n * 2)) qs"
proof (induction qs arbitrary: s results s1)
  case Nil
  then show ?case by simp
next
  case (Cons q qs)
  then show ?case
    by (fastforce split: prod.splits dest: find_urls_spec)
qed

lemma scrape_content_spec:
  "scrape_content env url s = (r, s1) \<Longrightarrow>
     heap s1 = heap s \<and> trace s1 = trace s @ [Client_get url]
     \<and> (r = None \<or> (\<exists>t. t \<noteq> [] \<and> r = Some \<lparr>url_key = url, text_key = t\<rparr>))"
  by (auto simp: scrape_content_def emit_def Let_def
      split: prod.splits http_outcome.splits soup_outcome.splits option.splits if_splits)

lemma gather_scrape_task_spec:
  "gather (scrape_task env) urls s = (results, s1) \<Longrightarrow>
     heap s1 = heap s \<and> trace s1 = trace s @ map Client_get urls
     \<and> (\<forall>r \<in> set results. scraped_from (set urls) r)"
proof (induction urls arbitrary: s results s1)
  case Nil
  then show ?case by simp
next
  case (Cons u us)
  obtain r sa where a: "scrape_content env u s = (r, sa)" by (cases "scrape_content env u s")
  obtain rs sb where b: "gather (scrape_task env) us sa = (rs, sb)"
    by (cases "gather (scrape_task env) us sa")
  from a have a': "scrape_task env u s = (Returned r, sa)" by (simp add: scrape_task_def)
  from Cons.prems a' b have res: "results = Returned r # rs" and s1: "s1 = sb"
    by auto
  from Cons.IH [OF b] have ih: "heap sb = heap sa" "trace sb = trace sa @ map Client_get us"
    "\<forall>r \<in> set rs. scraped_from (set us) r" by auto
  from scrape_content_spec [OF a] have h: "heap sa = heap s" "trace sa = trace s @ [Client_get u]"
    "scraped_from (set (u # us)) (Returned r)"
    by (auto simp: scraped_from_def)
  from ih(3) have "\<forall>r \<in> set rs. scraped_from (set (u # us)) r"
    by (auto simp: scraped_from_def split: task_result.splits option.splits)
  with res s1 ih h show ?case by auto
qed

lemma collect_scraped_spec:
  "collect_scraped rs (data, succ) = (data', succ') \<Longrightarrow> \<forall>r \<in> set rs. scraped_from U r \<Longrightarrow>
     set succ' \<subseteq> set succ \<union> U"
  by (induction rs "(data, succ)" arbitrary: data succ rule: collect_scraped.induct)
     (auto simp: scraped_from_def split: if_splits)

lemma add_new_urls_spec:
  "add_new_urls urls (to, vis) = (to', vis') \<Longrightarrow>
     distinct to \<Longrightarrow> set to \<inter> V = {} \<Longrightarrow> vis = V \<union> set to \<Longrightarrow>
     distinct to' \<and> set to' \<inter> V = {} \<and> vis' = V \<union> set to'"
proof (induction urls arbitrary: to vis)
  case Nil
  then show ?case by auto
next
  case (Cons u urls)
  show ?case
  proof (cases "u \<in> vis")
    case True
    with Cons.prems(1) have "add_new_urls urls (to, vis) = (to', vis')" by simp
    from Cons.IH [OF this Cons.prems(2,3,4)] show ?thesis .
  next
    case False
    with Cons.prems(1) have "add_new_urls urls (to @ [u], insert u vis) = (to', vis')" by simp
    moreover have "distinct (to @ [u])" "set (to @ [u]) \<inter> V = {}"
      "insert u vis = V \<union> set (to @ [u])"
      using False Cons.prems(2,3,4) by auto
    ultimately show ?thesis by (rule Cons.IH)
  qed
qed

lemma add_new_results_spec:
  "add_new_results results (to, vis) = (to', vis') \<Longrightarrow>
     distinct to \<Longrightarrow> set to \<inter> V = {} \<Longrightarrow> vis = V \<union> set to \<Longrightarrow>
     distinct to' \<and> set to' \<inter> V = {} \<and> vis' = V \<union> set to'"
proof (induction results arbitrary: to vis)
  case Nil
  then show ?case by auto
next
  case (Cons urls results)
  obtain t v where a: "add_new_urls urls (to, vis) = (t, v)" by (cases "add_new_urls urls (to, vis)")
  from add_new_urls_spec [OF a Cons.prems(2,3,4)] Cons.IH [of t v] Cons.prems(1) a
  show ?case by simp
qed

section \<open>One pass through the loop body\<close>

lemma research_step_cases:
  assumes step: "research_step env c a b i st s = (r, s')"
  obtains
    (expander_raised) p w where
      "fst (generate_content_async env Model_search p w) = Api_exception"
      "r = Inl (Gemini_error Model_search)"
      "heap s' = heap s"
      "trace s' = trace s @ [Depth i, Gemini_call Model_search p Api_exception]"
  | (no_new_urls) p out qs where
      "out \<noteq> Api_exception"
      "r = Inr st"
      "heap s' = heap s"
      "trace s' = trace s @ [Depth i, Gemini_call Model_search p out]
                   @ map (\<lambda>q. Ddgs_text q 4) qs"
  | (no_text) p out qs urls where
      "out \<noteq> Api_exception" "urls \<noteq> []" "distinct urls" "set urls \<inter> visited_urls st = {}"
      "r = Inr (st\<lparr>visited_urls := visited_urls st \<union> set urls\<rparr>)"
      "heap s' = heap s"
      "trace s' = trace s @ [Depth i, Gemini_call Model_search p out]
                   @ map (\<lambda>q. Ddgs_text q 4) qs @ map Client_get urls"
  | (synthesizer_raised) p out qs urls ap w where
      "out \<noteq> Api_exception" "urls \<noteq> []" "distinct urls" "set urls \<inter> visited_urls st = {}"
      "fst (generate_content_async env Model_analyze ap w) = Api_exception"
      "r = Inl (Gemini_error Model_analyze)"
      "heap s' = heap s"
      "trace s' = trace s @ [Depth i, Gemini_call Model_search p out]
                   @ map (\<lambda>q. Ddgs_text q 4) qs @ map Client_get urls
                   @ [Gemini_call Model_analyze ap Api_exception]"
  | (synthesized) p out qs urls ap aout successful where
      "out \<noteq> Api_exception" "urls \<noteq> []" "distinct urls" "set urls \<inter> visited_urls st = {}"
      "aout \<noteq> Api_exception" "set successful \<subseteq> set urls"
      "r = Inr (st\<lparr>visited_urls := visited_urls st \<union> set urls,
                    all_sources := all_sources st @ successful,
                    final_directions := directions_key (parse_summary env (answer_text aout))\<rparr>)"
      "heap s' = (heap s)[a := heap s ! a @ learnings_key (parse_summary env (answer_text aout))]"
      "trace s' = trace s @ [Depth i, Gemini_call Model_search p out]
                   @ map (\<lambda>q. Ddgs_text q 4) qs @ map Client_get urls
                   @ [Gemini_call Model_analyze ap aout]"
proof -
  let ?s0 = "emit (Depth i) s"
  have s0: "heap ?s0 = heap s" "trace ?s0 = trace s @ [Depth i]"
    by (simp_all add: emit_def)
  obtain rq s1 where q: "generate_search_queries env c (heap s ! a) b ?s0 = (rq, s1)"
    by (cases "generate_search_queries env c (heap s ! a) b ?s0")
  from generate_search_queries_spec [OF q] obtain p out where
    o: "out = fst (generate_content_async env Model_search p (world ?s0))"
    and h1: "heap s1 = heap s"
    and t1: "trace s1 = trace s @ [Depth i, Gemini_call Model_search p out]"
    and rq: "if out = Api_exception then rq = Inl (Gemini_error Model_search)
             else rq = Inr (slice_to b (parse_queries (answer_text out)))"
    using s0 by auto
  show thesis
  proof (cases "out = Api_exception")
    case True
    with rq q step have "r = Inl (Gemini_error Model_search)" "s' = s1"
      by (auto simp: research_step_def)
    with True o h1 t1 show thesis by (intro expander_raised [of p "world ?s0"]) auto
  next
    case live: False
    define qs where "qs = slice_to b (parse_queries (answer_text out))"
    with live rq have rq': "rq = Inr qs" by simp
    obtain results s2 where g: "gather (\<lambda>query. find_urls env query 2) qs s1 = (results, s2)"
      by (cases "gather (\<lambda>query. find_urls env query 2) qs s1")
    from gather_find_urls_spec [OF g] h1 t1 have h2: "heap s2 = heap s"
      and t2: "trace s2 = trace s @ [Depth i, Gemini_call Model_search p out]
                 @ map (\<lambda>q. Ddgs_text q 4) qs"
      by auto
    obtain urls vis where d: "add_new_results results ([], visited_urls st) = (urls, vis)"
      by (cases "add_new_results results ([], visited_urls st)")
    from add_new_results_spec [OF d, of "visited_urls st"]
    have u: "distinct urls" "set urls \<inter> visited_urls st = {}"
      and vis: "vis = visited_urls st \<union> set urls"
      by auto
    show thesis
    proof (cases "urls = []")
      case True
      with step q rq' g d vis have "r = Inr st" "s' = s2"
        by (auto simp: research_step_def)
      with live h2 t2 show thesis by (intro no_new_urls [of out p qs]) auto
    next
      case some: False
      obtain srs s3 where sc: "gather (scrape_task env) urls s2 = (srs, s3)"
        by (cases "gather (scrape_task env) urls s2")
      from gather_scrape_task_spec [OF sc] h2 t2 have h3: "heap s3 = heap s"
        and t3: "trace s3 = trace s @ [Depth i, Gemini_call Model_search p out]
                   @ map (\<lambda>q. Ddgs_text q 4) qs @ map Client_get urls"
        and from_batch: "\<forall>r \<in> set srs. scraped_from (set urls) r"
        by auto
      obtain data successful where co: "collect_scraped srs ([], []) = (data, successful)"
        by (cases "collect_scraped srs ([], [])")
      from collect_scraped_spec [OF co from_batch] have succ: "set successful \<subseteq> set urls"
        by simp
      show thesis
      proof (cases "data = []")
        case True
        with step q rq' g d some sc co vis
        have "r = Inr (st\<lparr>visited_urls := visited_urls st \<union> set urls\<rparr>)" "s' = s3"
          by (auto simp: research_step_def)
        with live some u h3 t3 show thesis by (intro no_text [of out urls p qs]) auto
      next
        case has_text: False
        obtain ra s4 where sm: "summarize_and_find_directions env c (heap s3 ! a)
            (join separator (map text_key data)) s3 = (ra, s4)"
          by (cases "summarize_and_find_directions env c (heap s3 ! a)
            (join separator (map text_key data)) s3")
        from summarize_and_find_directions_spec [OF sm] obtain ap aout where
          ao: "aout = fst (generate_content_async env Model_analyze ap (world s3))"
          and h4: "heap s4 = heap s"
          and t4: "trace s4 = trace s @ [Depth i, Gemini_call Model_search p out]
                   @ map (\<lambda>q. Ddgs_text q 4) qs @ map Client_get urls
                   @ [Gemini_call Model_analyze ap aout]"
          and ra: "if aout = Api_exception then ra = Inl (Gemini_error Model_analyze)
                   else ra = Inr (parse_summary env (answer_text aout))"
          using h3 t3 by auto
        show thesis
        proof (cases "aout = Api_exception")
          case True
          with step q rq' g d some sc co has_text sm ra
          have "r = Inl (Gemini_error Model_analyze)" "s' = s4"
            by (auto simp: research_step_def)
          with True live some u h4 t4 ao show thesis
            by (intro synthesizer_raised [of out urls ap "world s3" p qs]) auto
        next
          case False
          with step q rq' g d some sc co has_text sm ra vis
          have "r = Inr (st\<lparr>visited_urls := visited_urls st \<union> set urls,
                    all_sources := all_sources st @ successful,
                    final_directions := directions_key (parse_summary env (answer_text aout))\<rparr>)"
            "s' = list_extend a (learnings_key (parse_summary env (answer_text aout))) s4"
            by (auto simp: research_step_def)
          with False live some u h4 t4 succ show thesis
            by (intro synthesized [of out urls aout successful p qs ap])
               (auto simp: list_extend_def)
        qed
      qed
    qed
  qed
qed

lemma gemini_raised_append [simp]:
  "gemini_raised (xs @ ys) = (gemini_raised xs \<or> gemini_raised ys)"
  by (induction xs rule: gemini_raised.induct) auto

lemma trace_of_searches [simp]:
  "fetched (map (\<lambda>q. Ddgs_text q n) qs) = []"
  "iterations (map (\<lambda>q. Ddgs_text q n) qs) = 0"
  "calls_of m (map (\<lambda>q. Ddgs_text q n) qs) = []"
  "gemini_raised (map (\<lambda>q. Ddgs_text q n) qs) = False"
  by (induction qs) auto

lemma trace_of_fetches [simp]:
  "fetched (map Client_get urls) = urls"
  "iterations (map Client_get urls) = 0"
  "calls_of m (map Client_get urls) = []"
  "gemini_raised (map Client_get urls) = False"
  by (induction urls) auto

lemma heap_extend_twice:
  assumes "h1 = h[a := h ! a @ xs]" and "h2 = h1[a := h1 ! a @ ys]"
  shows "h2 = h[a := h ! a @ (xs @ ys)]"
proof (cases "a < length h")
  case True
  with assms show ?thesis by simp
next
  case False
  then have "length h \<le> a" by simp
  with assms show ?thesis by (simp add: list_update_beyond)
qed

lemma research_step_heap:
  assumes "research_step env c a b i st s = (r, s')"
  shows "\<exists>xs. heap s' = (heap s)[a := heap s ! a @ xs]"
  using assms
proof (cases rule: research_step_cases)
  case (synthesized p out qs urls ap aout successful)
  then show ?thesis by blast
qed (metis append_Nil2 list_update_id)+

lemma research_step_trace:
  assumes "research_step env c a b i st s = (r, s')"
  shows "\<exists>evs. trace s' = trace s @ evs"
  using assms by (cases rule: research_step_cases) auto

lemma research_step_counts:
  assumes "research_step env c a b i st s = (r, s')"
  shows "iterations (trace s') = Suc (iterations (trace s))"
    and "length (calls_of Model_search (trace s')) = Suc (length (calls_of Model_search (trace s)))"
  using assms by (cases rule: research_step_cases; simp)+

lemma research_step_raised:
  assumes "research_step env c a b i st s = (r, s')" and "\<not> gemini_raised (trace s)"
  shows "isl r \<longleftrightarrow> gemini_raised (trace s')"
    and "\<forall>e. r = Inl e \<longrightarrow>
           (\<exists>m p tr. e = Gemini_error m \<and> trace s' = tr @ [Gemini_call m p Api_exception])"
  using assms by (cases rule: research_step_cases; force)+

lemma research_step_returns:
  assumes "research_step env c a b i st s = (r, s')"
    and "\<forall>m p w. fst (generate_content_async env m p w) \<noteq> Api_exception"
  shows "\<exists>st'. r = Inr st'"
  using assms by (cases rule: research_step_cases) auto

lemma research_step_dedup:
  assumes "research_step env c a b i st s = (r, s')"
    and "distinct (fetched (trace s))"
    and "set (fetched (trace s)) \<subseteq> visited_urls st"
    and "set (all_sources st) \<subseteq> visited_urls st"
  shows "distinct (fetched (trace s'))"
    and "\<forall>st'. r = Inr st' \<longrightarrow>
           set (fetched (trace s')) \<subseteq> visited_urls st'
           \<and> set (all_sources st') \<subseteq> visited_urls st'"
  using assms by (cases rule: research_step_cases; auto)+

lemma research_step_directions:
  assumes "research_step env c a b i st s = (Inr st', s')"
    and "final_directions st = (if syntheses env (trace s) = [] then []
                                else directions_key (last (syntheses env (trace s))))"
  shows "final_directions st' = (if syntheses env (trace s') = [] then []
                                 else directions_key (last (syntheses env (trace s'))))"
  using assms by (cases rule: research_step_cases) (auto simp: syntheses_def)

lemma research_step_starved:
  assumes "research_step env c a b i st s = (r, s')"
    and "calls_of Model_analyze (trace s') = []"
  shows "heap s' = heap s"
    and "\<forall>st'. r = Inr st' \<longrightarrow> all_sources st' = all_sources st
                                \<and> final_directions st' = final_directions st"
  using assms by (cases rule: research_step_cases; auto)+

section \<open>The loop\<close>

lemma research_loop_Cons_cases:
  assumes "research_loop env c a b (i # is) st s = (r, s')"
  obtains
    (stopped) e where "research_step env c a b i st s = (Inl e, s')" "r = Inl e"
  | (continued) st1 s1 where "research_step env c a b i st s = (Inr st1, s1)"
      "research_loop env c a b is st1 s1 = (r, s')"
proof -
  obtain r1 s1 where step: "research_step env c a b i st s = (r1, s1)"
    by (cases "research_step env c a b i st s")
  show thesis
  proof (cases r1)
    case (Inl e)
    with assms step show thesis by (intro stopped [of e]) auto
  next
    case (Inr st1)
    with assms step show thesis by (intro continued [of st1 s1]) auto
  qed
qed

lemma research_loop_snoc:
  "research_loop env c a b (is @ [i]) st s =
     (case research_loop env c a b is st s of
        (Inl e, s1) \<Rightarrow> (Inl e, s1)
      | (Inr st1, s1) \<Rightarrow> research_step env c a b i st1 s1)"
  by (induction "is" arbitrary: st s) (auto split: prod.splits sum.splits)

lemma research_loop_heap:
  "research_loop env c a b is st s = (r, s') \<Longrightarrow>
     \<exists>xs. heap s' = (heap s)[a := heap s ! a @ xs]"
proof (induction "is" arbitrary: st s)
  case Nil
  then have "heap s' = (heap s)[a := heap s ! a @ []]" by simp
  then show ?case ..
next
  case (Cons i "is")
  from Cons.prems show ?case
  proof (cases rule: research_loop_Cons_cases)
    case (stopped e)
    then show ?thesis by (auto dest: research_step_heap)
  next
    case (continued st1 s1)
    from research_step_heap [OF continued(1)] obtain xs where
      "heap s1 = (heap s)[a := heap s ! a @ xs]" ..
    moreover from Cons.IH [OF continued(2)] obtain ys where
      "heap s' = (heap s1)[a := heap s1 ! a @ ys]" ..
    ultimately have "heap s' = (heap s)[a := heap s ! a @ (xs @ ys)]"
      by (rule heap_extend_twice)
    then show ?thesis ..
  qed
qed

lemma research_loop_trace:
  "research_loop env c a b is st s = (r, s') \<Longrightarrow> \<exists>evs. trace s' = trace s @ evs"
proof (induction "is" arbitrary: st s)
  case Nil
  then show ?case by simp
next
  case (Cons i "is")
  from Cons.prems show ?case
  proof (cases rule: research_loop_Cons_cases)
    case (stopped e)
    then show ?thesis by (auto dest: research_step_trace)
  next
    case (continued st1 s1)
    from research_step_trace [OF continued(1)] Cons.IH [OF continued(2)]
    show ?thesis by auto
  qed
qed

lemma research_loop_counts:
  "research_loop env c a b is st s = (r, s') \<Longrightarrow>
     iterations (trace s') \<le> iterations (trace s) + length is
     \<and> length (calls_of Model_search (trace s'))
         \<le> length (calls_of Model_search (trace s)) + length is
     \<and> (\<not> isl r \<longrightarrow>
          iterations (trace s') = iterations (trace s) + length is
          \<and> length (calls_of Model_search (trace s'))
              = length (calls_of Model_search (trace s)) + length is)"
proof (induction "is" arbitrary: st s)
  case Nil
  then show ?case by simp
next
  case (Cons i "is")
  from Cons.prems show ?case
  proof (cases rule: research_loop_Cons_cases)
    case (stopped e)
    with research_step_counts [OF stopped(1)] show ?thesis by simp
  next
    case (continued st1 s1)
    from research_step_counts [OF continued(1)] Cons.IH [OF continued(2)]
    show ?thesis by simp
  qed
qed

lemma research_loop_raised:
  "research_loop env c a b is st s = (r, s') \<Longrightarrow> \<not> gemini_raised (trace s) \<Longrightarrow>
     (isl r \<longleftrightarrow> gemini_raised (trace s'))
     \<and> (\<forall>e. r = Inl e \<longrightarrow>
           (\<exists>m p tr. e = Gemini_error m \<and> trace s' = tr @ [Gemini_call m p Api_exception]))"
proof (induction "is" arbitrary: st s)
  case Nil
  then show ?case by auto
next
  case (Cons i "is")
  from Cons.prems(1) show ?case
  proof (cases rule: research_loop_Cons_cases)
    case (stopped e)
    with research_step_raised [OF stopped(1) Cons.prems(2)] show ?thesis by simp
  next
    case (continued st1 s1)
    from research_step_raised(1) [OF continued(1) Cons.prems(2)]
    have "\<not> gemini_raised (trace s1)" by simp
    from Cons.IH [OF continued(2) this] show ?thesis .
  qed
qed

lemma research_loop_returns:
  "research_loop env c a b is st s = (r, s') \<Longrightarrow>
     \<forall>m p w. fst (generate_content_async env m p w) \<noteq> Api_exception \<Longrightarrow>
     \<exists>st'. r = Inr st'"
proof (induction "is" arbitrary: st s)
  case Nil
  then show ?case by auto
next
  case (Cons i "is")
  from Cons.prems(1) show ?case
  proof (cases rule: research_loop_Cons_cases)
    case (stopped e)
    with research_step_returns [OF stopped(1) Cons.prems(2)] show ?thesis by simp
  next
    case (continued st1 s1)
    from Cons.IH [OF continued(2) Cons.prems(2)] show ?thesis .
  qed
qed

lemma research_loop_dedup:
  "research_loop env c a b is st s = (r, s') \<Longrightarrow>
     distinct (fetched (trace s)) \<Longrightarrow>
     set (fetched (trace s)) \<subseteq> visited_urls st \<Longrightarrow>
     set (all_sources st) \<subseteq> visited_urls st \<Longrightarrow>
     distinct (fetched (trace s'))
     \<and> (\<forall>st'. r = Inr st' \<longrightarrow>
           set (fetched (trace s')) \<subseteq> visited_urls st'
           \<and> set (all_sources st') \<subseteq> visited_urls st')"
proof (induction "is" arbitrary: st s)
  case Nil
  then show ?case by auto
next
  case (Cons i "is")
  from Cons.prems(1) show ?case
  proof (cases rule: research_loop_Cons_cases)
    case (stopped e)
    with research_step_dedup(1) [OF stopped(1) Cons.prems(2,3,4)] show ?thesis by simp
  next
    case (continued st1 s1)
    from research_step_dedup [OF continued(1) Cons.prems(2,3,4)]
    have "distinct (fetched (trace s1))" "set (fetched (trace s1)) \<subseteq> visited_urls st1"
      "set (all_sources st1) \<subseteq> visited_urls st1"
      by simp_all
    with continued(2) show ?thesis by (rule Cons.IH)
  qed
qed

lemma research_loop_directions:
  "research_loop env c a b is st s = (Inr st', s') \<Longrightarrow>
     final_directions st = (if syntheses env (trace s) = [] then []
                            else directions_key (last (syntheses env (trace s)))) \<Longrightarrow>
     final_directions st' = (if syntheses env (trace s') = [] then []
                             else directions_key (last (syntheses env (trace s'))))"
proof (induction "is" arbitrary: st s)
  case Nil
  then show ?case by simp
next
  case (Cons i "is")
  from Cons.prems(1) show ?case
  proof (cases rule: research_loop_Cons_cases)
    case (stopped e)
    then show ?thesis by simp
  next
    case (continued st1 s1)
    from research_step_directions [OF continued(1) Cons.prems(2)] continued(2)
    show ?thesis by (rule Cons.IH [rotated])
  qed
qed

lemma research_loop_starved:
  "research_loop env c a b is st s = (r, s') \<Longrightarrow>
     calls_of Model_analyze (trace s') = [] \<Longrightarrow>
     heap s' = heap s
     \<and> (\<forall>st'. r = Inr st' \<longrightarrow> all_sources st' = all_sources st
                                \<and> final_directions st' = final_directions st)"
proof (induction "is" arbitrary: st s)
  case Nil
  then show ?case by auto
next
  case (Cons i "is")
  from Cons.prems(1) show ?case
  proof (cases rule: research_loop_Cons_cases)
    case (stopped e)
    with research_step_starved(1) [OF stopped(1) Cons.prems(2)] show ?thesis by simp
  next
    case (continued st1 s1)
    from research_loop_trace [OF continued(2)] Cons.prems(2)
    have quiet: "calls_of Model_analyze (trace s1) = []" by auto
    from research_step_starved [OF continued(1) quiet] Cons.IH [OF continued(2) Cons.prems(2)]
    show ?thesis by simp
  qed
qed

section \<open>The whole run\<close>

lemma start_session_spec:
  assumes "start_session ex w h = (a, s)"
  shows "trace s = []" and "length h \<le> a" and "a < length (heap s)"
    and "take (length h) (heap s) = h"
    and "heap s ! a = (case ex of None \<Rightarrow> [] | Some r \<Rightarrow> h ! r)"
  using assms
  by (auto simp: start_session_def alloc_def nth_append split: option.splits prod.splits)

lemma perform_deep_research_cases:
  assumes "perform_deep_research env q d b ex w h = (r, s)"
  obtains
    (loop_raised) a s0 e where
      "start_session ex w h = (a, s0)"
      "research_loop env q a b [0..<nat d]
         \<lparr>visited_urls = {}, all_sources = [], final_directions = []\<rparr> s0 = (Inl e, s)"
      "r = Inl e"
  | (composer_raised) a s0 st s1 e where
      "start_session ex w h = (a, s0)"
      "research_loop env q a b [0..<nat d]
         \<lparr>visited_urls = {}, all_sources = [], final_directions = []\<rparr> s0 = (Inr st, s1)"
      "generate_final_report env q (heap s1 ! a) s1 = (Inl e, s)"
      "r = Inl e"
  | (returned) a s0 st s1 final_report where
      "start_session ex w h = (a, s0)"
      "research_loop env q a b [0..<nat d]
         \<lparr>visited_urls = {}, all_sources = [], final_directions = []\<rparr> s0 = (Inr st, s1)"
      "generate_final_report env q (heap s1 ! a) s1 = (Inr final_report, s)"
      "r = Inr \<lparr>result_report = final_report, result_sources = set (all_sources st),
                 result_learnings = a, result_directions = final_directions st\<rparr>"
proof -
  obtain a s0 where start: "start_session ex w h = (a, s0)"
    by (cases "start_session ex w h")
  obtain rl s1 where loop: "research_loop env q a b [0..<nat d]
      \<lparr>visited_urls = {}, all_sources = [], final_directions = []\<rparr> s0 = (rl, s1)"
    by (cases "research_loop env q a b [0..<nat d]
      \<lparr>visited_urls = {}, all_sources = [], final_directions = []\<rparr> s0")
  show thesis
  proof (cases rl)
    case (Inl e)
    with assms start loop have "r = Inl e" "s = s1"
      by (auto simp: perform_deep_research_def research_iterations_def)
    with start loop Inl show thesis by (intro loop_raised [of a s0 e]) auto
  next
    case (Inr st)
    obtain rr s2 where rep: "generate_final_report env q (heap s1 ! a) s1 = (rr, s2)"
      by (cases "generate_final_report env q (heap s1 ! a) s1")
    show thesis
    proof (cases rr)
      case (Inl e)
      with assms start loop Inr rep have "r = Inl e" "s = s2"
        by (auto simp: perform_deep_research_def research_iterations_def)
      with start loop Inr rep Inl show thesis by (intro composer_raised [of a s0 st s1 e]) auto
    next
      case report: (Inr final_report)
      with assms start loop Inr rep
      have "r = Inr \<lparr>result_report = final_report, result_sources = set (all_sources st),
                 result_learnings = a, result_directions = final_directions st\<rparr>" "s = s2"
        by (auto simp: perform_deep_research_def research_iterations_def)
      with start loop Inr rep report show thesis
        by (intro returned [of a s0 st s1 final_report]) auto
    qed
  qed
qed

lemma generate_final_report_trace:
  assumes "generate_final_report env q ls s = (r, s1)"
  shows "heap s1 = heap s" and "fetched (trace s1) = fetched (trace s)"
    and "iterations (trace s1) = iterations (trace s)"
    and "calls_of Model_search (trace s1) = calls_of Model_search (trace s)"
    and "calls_of Model_analyze (trace s1) = calls_of Model_analyze (trace s)"
    and "\<exists>evs. trace s1 = trace s @ evs"
  using generate_final_report_spec [OF assms] by auto

lemma generate_final_report_raised:
  assumes "generate_final_report env q ls s = (r, s1)" and "\<not> gemini_raised (trace s)"
  shows "isl r \<longleftrightarrow> gemini_raised (trace s1)"
    and "\<forall>e. r = Inl e \<longrightarrow>
           (\<exists>m p tr. e = Gemini_error m \<and> trace s1 = tr @ [Gemini_call m p Api_exception])"
    and "\<forall>m p w. fst (generate_content_async env m p w) \<noteq> Api_exception \<Longrightarrow> \<not> isl r"
  using generate_final_report_spec [OF assms(1)] assms(2)
  by (auto split: if_splits)

lemma perform_deep_research_raised:
  assumes "perform_deep_research env q d b ex w h = (r, s)"
  shows "(isl r \<longleftrightarrow> gemini_raised (trace s))
       \<and> (\<forall>e. r = Inl e \<longrightarrow>
           (\<exists>m p tr. e = Gemini_error m \<and> trace s = tr @ [Gemini_call m p Api_exception]))"
  using assms
proof (cases rule: perform_deep_research_cases)
  case (loop_raised a s0 e)
  from start_session_spec(1) [OF loop_raised(1)] have "\<not> gemini_raised (trace s0)" by simp
  from research_loop_raised [OF loop_raised(2) this] loop_raised(3)
  show ?thesis by simp
next
  case (composer_raised a s0 st s1 e)
  from start_session_spec(1) [OF composer_raised(1)] have "\<not> gemini_raised (trace s0)" by simp
  from research_loop_raised [OF composer_raised(2) this]
  have quiet: "\<not> gemini_raised (trace s1)" by simp
  from generate_final_report_raised(1,2) [OF composer_raised(3) quiet] composer_raised(4)
  show ?thesis by simp
next
  case (returned a s0 st s1 final_report)
  from start_session_spec(1) [OF returned(1)] have "\<not> gemini_raised (trace s0)" by simp
  from research_loop_raised [OF returned(2) this]
  have quiet: "\<not> gemini_raised (trace s1)" by simp
  from generate_final_report_raised(1,2) [OF returned(3) quiet] returned(4)
  show ?thesis by simp
qed

lemma perform_deep_research_returns:
  assumes "perform_deep_research env q d b ex w h = (r, s)"
    and "\<forall>m p w. fst (generate_content_async env m p w) \<noteq> Api_exception"
  shows "\<exists>out. r = Inr out"
  using assms(1)
proof (cases rule: perform_deep_research_cases)
  case (loop_raised a s0 e)
  from research_loop_returns [OF loop_raised(2) assms(2)] show ?thesis by simp
next
  case (composer_raised a s0 st s1 e)
  from start_session_spec(1) [OF composer_raised(1)] have "\<not> gemini_raised (trace s0)" by simp
  from research_loop_raised [OF composer_raised(2) this]
  have quiet: "\<not> gemini_raised (trace s1)" by simp
  from generate_final_report_raised(3) [OF composer_raised(3) quiet assms(2)]
  show ?thesis by simp
next
  case (returned a s0 st s1 final_report)
  then show ?thesis by simp
qed

lemma perform_deep_research_counts:
  assumes "perform_deep_research env q d b ex w h = (r, s)"
  shows "iterations (trace s) \<le> nat d
       \<and> length (calls_of Model_search (trace s)) \<le> nat d
       \<and> (\<not> isl r \<longrightarrow> iterations (trace s) = nat d
                     \<and> length (calls_of Model_search (trace s)) = nat d)"
  using assms
proof (cases rule: perform_deep_research_cases)
  case (loop_raised a s0 e)
  from research_loop_counts [OF loop_raised(2)] start_session_spec(1) [OF loop_raised(1)]
    loop_raised(3)
  show ?thesis by simp
next
  case (composer_raised a s0 st s1 e)
  from research_loop_counts [OF composer_raised(2)] start_session_spec(1) [OF composer_raised(1)]
    generate_final_report_trace(3,4) [OF composer_raised(3)] composer_raised(4)
  show ?thesis by simp
next
  case (returned a s0 st s1 final_report)
  from research_loop_counts [OF returned(2)] start_session_spec(1) [OF returned(1)]
    generate_final_report_trace(3,4) [OF returned(3)]
  show ?thesis by simp
qed

lemma join_contains_element:
  "x \<in> set xs \<Longrightarrow> \<exists>pre post. join sep xs = pre @ x @ post"
proof (induction sep xs rule: join.induct)
  case (1 sep)
  then show ?case by simp
next
  case (2 sep y)
  then have "join sep [y] = [] @ x @ []" by simp
  then show ?case by blast
next
  case (3 sep y z zs)
  show ?case
  proof (cases "x = y")
    case True
    then have "join sep (y # z # zs) = [] @ x @ (sep @ join sep (z # zs))" by simp
    then show ?thesis by blast
  next
    case False
    with 3 obtain pre post where "join sep (z # zs) = pre @ x @ post" by auto
    then have "join sep (y # z # zs) = (y @ sep @ pre) @ x @ post" by simp
    then show ?thesis by blast
  qed
qed



lemma research_loop_length:
  assumes "research_loop env c a b is st s = (r, s')"
  shows "length (heap s') = length (heap s)"
  using research_loop_heap [OF assms] by auto

lemma research_iterations_Suc:
  assumes "research_iterations env q n b ex w h = (a, r, s)"
  shows "research_iterations env q (Suc n) b ex w h =
           (a, case r of Inl e \<Rightarrow> (Inl e, s) | Inr st \<Rightarrow> research_step env q a b n st s)"
  using assms
  by (auto simp: research_iterations_def research_loop_snoc split: prod.splits sum.splits)

lemma research_iterations_ref:
  assumes "research_iterations env q n b ex w h = (a, r, s)"
  shows "a < length (heap s)"
proof -
  obtain s0 where start: "start_session ex w h = (a, s0)"
    and loop: "research_loop env q a b [0..<n]
        \<lparr>visited_urls = {}, all_sources = [], final_directions = []\<rparr> s0 = (r, s)"
    using assms by (auto simp: research_iterations_def split: prod.splits)
  from start_session_spec(3) [OF start] research_loop_length [OF loop] show ?thesis by simp
qed

lemma learnings_after_step:
  "\<exists>xs. learnings_after env q b ex w h (Suc n) = learnings_after env q b ex w h n @ xs"
proof -
  obtain a r s where it: "research_iterations env q n b ex w h = (a, r, s)"
    by (cases "research_iterations env q n b ex w h") auto
  note ref = research_iterations_ref [OF it]
  show ?thesis
  proof (cases r)
    case (Inl e)
    with it research_iterations_Suc [OF it] show ?thesis
      by (simp add: learnings_after_def)
  next
    case (Inr st)
    obtain r' s' where step: "research_step env q a b n st s = (r', s')"
      by (cases "research_step env q a b n st s")
    from research_step_heap [OF step] obtain xs where
      "heap s' = (heap s)[a := heap s ! a @ xs]" ..
    with ref have "heap s' ! a = heap s ! a @ xs" by simp
    with it research_iterations_Suc [OF it] Inr step show ?thesis
      by (simp add: learnings_after_def)
  qed
qed

section \<open>Evaluating concrete runs\<close>

lemmas run_defs =
  perform_deep_research_def research_iterations_def start_session_def alloc_def list_extend_def
  research_step_def generate_search_queries_def summarize_and_find_directions_def
  generate_final_report_def call_gemini_api_def parse_summary_def parse_queries_def
  find_urls_def scrape_task_def scrape_content_def extract_text_def raise_for_status_def
  emit_def slice_from_neg_def slice_to_def strip_def isspace_def lower_def lower_char_def
  max_input_chars_def separator_def no_information_report_def fallback_report_def
  scripted_def steady_def script_json_def page_def syntheses_def answer_text_def
  learnings_after_def upt_conv_Cons

lemma steady_never_raises:
  "\<forall>m p w. fst (generate_content_async steady m p w) \<noteq> Api_exception"
  by (auto simp: steady_def scripted_def split: list.splits)

section \<open>The claims\<close>

text \<open>
  C1. The claim: no failure of a single search, a single extraction or one synthesis call
  makes \<open>run\<close> raise, and only the Report Composer can make it raise. It fails: when the
  model call of the Insight Synthesizer raises, \<open>_call_gemini_api\<close> raises it again and
  nothing between it and the caller catches it; the same holds for the Query Expander.
\<close>

theorem subtask_failure_counterexample:
  "fst (perform_deep_research scripted ''q'' 1 1 None
          ([Parts ''x'', Api_exception], [[Some ''u'']], [page ''t'']) [])
     = Inl (Gemini_error Model_analyze)
   \<and> fst (perform_deep_research scripted ''q'' 1 1 None ([Api_exception], [], []) [])
     = Inl (Gemini_error Model_search)"
  by (simp add: run_defs)

text \<open>
  C1 as amended: whatever the search provider, the HTTP client and the two parsers do (a
  failed search, a failed extraction, a malformed synthesis answer), \<open>run\<close> raises exactly
  when a call to the language model raises, in the Query Expander, the Insight Synthesizer
  or the Report Composer; the error is then the one of that last call. With a model that
  never raises, \<open>run\<close> returns.
\<close>

theorem run_raises_exactly_when_model_raises:
  assumes "perform_deep_research env initial_query depth breadth existing_findings w h = (r, s)"
  shows "(isl r \<longleftrightarrow> gemini_raised (trace s))
       \<and> (\<forall>e. r = Inl e \<longrightarrow>
            (\<exists>m p tr. e = Gemini_error m \<and> trace s = tr @ [Gemini_call m p Api_exception]))
       \<and> ((\<forall>m p w'. fst (generate_content_async env m p w') \<noteq> Api_exception)
            \<longrightarrow> (\<exists>out. r = Inr out))"
  using perform_deep_research_raised [OF assms] perform_deep_research_returns [OF assms]
  by blast

theorem run_raises_exactly_when_model_raises_witness:
  "(\<forall>m p w'. fst (generate_content_async steady m p w') \<noteq> Api_exception)
   \<and> (\<exists>out. fst (perform_deep_research steady ''q'' 2 1 None
                   ([Parts ''x'', Parts ''y'', Parts ''not json''],
                    [[Some ''u'']], [Response 404 None [], page ''t'']) []) = Inr out)
   \<and> fetched (trace (snd (perform_deep_research steady ''q'' 2 1 None
                   ([Parts ''x'', Parts ''y'', Parts ''not json''],
                    [[Some ''u'']], [Response 404 None [], page ''t'']) []))) = [''u'']
   \<and> isl (fst (perform_deep_research scripted ''q'' 1 1 None ([Api_exception], [], []) []))
   \<and> gemini_raised (trace (snd
        (perform_deep_research scripted ''q'' 1 1 None ([Api_exception], [], []) [])))"
proof -
  have "\<exists>out. fst (perform_deep_research steady ''q'' 2 1 None
                   ([Parts ''x'', Parts ''y'', Parts ''not json''],
                    [[Some ''u'']], [Response 404 None [], page ''t'']) []) = Inr out"
    using run_raises_exactly_when_model_raises [OF surjective_pairing,
        of steady "''q''" 2 1 None "([Parts ''x'', Parts ''y'', Parts ''not json''],
                    [[Some ''u'']], [Response 404 None [], page ''t''])" "[]"]
      steady_never_raises
    by blast
  moreover have "gemini_raised (trace (snd
        (perform_deep_research scripted ''q'' 1 1 None ([Api_exception], [], []) [])))"
    using run_raises_exactly_when_model_raises [OF surjective_pairing,
        of scripted "''q''" 1 1 None "([Api_exception], [], [])" "[]"]
    by (simp add: run_defs)
  moreover have "fetched (trace (snd (perform_deep_research steady ''q'' 2 1 None
                   ([Parts ''x'', Parts ''y'', Parts ''not json''],
                    [[Some ''u'']], [Response 404 None [], page ''t'']) []))) = [''u'']"
    by (simp add: run_defs)
  moreover have
    "isl (fst (perform_deep_research scripted ''q'' 1 1 None ([Api_exception], [], []) []))"
    by (simp add: run_defs)
  ultimately show ?thesis using steady_never_raises by blast
qed

text \<open>
  C2. Within one run no URL is given to \<open>scrape_content\<close> twice, a URL that the searches
  of one batch return twice included; and when the run returns, every source is a visited
  URL. \<open>visited_urls\<close> is a local variable of the run, read here from the state in which
  the loop ends.
\<close>

theorem url_dedup:
  assumes "perform_deep_research env initial_query depth breadth existing_findings w h = (r, s)"
  shows "distinct (fetched (trace s))
       \<and> (\<forall>out. r = Inr out \<longrightarrow>
            (\<exists>a st s1.
                research_iterations env initial_query (nat depth) breadth existing_findings w h
                  = (a, Inr st, s1)
              \<and> result_sources out = set (all_sources st)
              \<and> result_sources out \<subseteq> visited_urls st))"
  using assms
proof (cases rule: perform_deep_research_cases)
  case (loop_raised a s0 e)
  from research_loop_dedup [OF loop_raised(2)] start_session_spec(1) [OF loop_raised(1)]
    loop_raised(3)
  show ?thesis by simp
next
  case (composer_raised a s0 st s1 e)
  from research_loop_dedup [OF composer_raised(2)] start_session_spec(1) [OF composer_raised(1)]
    generate_final_report_trace(2) [OF composer_raised(3)] composer_raised(4)
  show ?thesis by simp
next
  case (returned a s0 st s1 final_report)
  from research_loop_dedup [OF returned(2)] start_session_spec(1) [OF returned(1)]
    generate_final_report_trace(2) [OF returned(3)]
  have "distinct (fetched (trace s))" "set (all_sources st) \<subseteq> visited_urls st"
    by simp_all
  moreover from returned(1,2)
  have "research_iterations env initial_query (nat depth) breadth existing_findings w h
          = (a, Inr st, s1)"
    by (simp add: research_iterations_def)
  ultimately show ?thesis using returned(4) by simp
qed

theorem url_dedup_witness:
  "distinct (fetched (trace (snd (perform_deep_research steady ''quantum error correction'' 1 2
       None ([Parts [CHR ''a'', CHR 0x0A, CHR ''b''], Parts ''A''],
             [[Some ''siteA.example/qec'', Some ''siteA.example/qec''],
              [Some ''siteB.example/qec'']],
             [page ''one'', page ''two'']) []))))
   \<and> fetched (trace (snd (perform_deep_research steady ''quantum error correction'' 1 2
       None ([Parts [CHR ''a'', CHR 0x0A, CHR ''b''], Parts ''A''],
             [[Some ''siteA.example/qec'', Some ''siteA.example/qec''],
              [Some ''siteB.example/qec'']],
             [page ''one'', page ''two'']) [])))
       = [''siteA.example/qec'', ''siteB.example/qec'']
   \<and> (\<exists>out. fst (perform_deep_research steady ''quantum error correction'' 1 2
       None ([Parts [CHR ''a'', CHR 0x0A, CHR ''b''], Parts ''A''],
             [[Some ''siteA.example/qec'', Some ''siteA.example/qec''],
              [Some ''siteB.example/qec'']],
             [page ''one'', page ''two'']) []) = Inr out
        \<and> result_sources out = {''siteA.example/qec'', ''siteB.example/qec''})"
proof -
  have "distinct (fetched (trace (snd (perform_deep_research steady
       ''quantum error correction'' 1 2
       None ([Parts [CHR ''a'', CHR 0x0A, CHR ''b''], Parts ''A''],
             [[Some ''siteA.example/qec'', Some ''siteA.example/qec''],
              [Some ''siteB.example/qec'']],
             [page ''one'', page ''two'']) []))))"
    by (rule conjunct1 [OF url_dedup [OF surjective_pairing]])
  then show ?thesis by (simp add: run_defs)
qed

text \<open>
  C3. The claim: in every run the loop body is entered exactly \<open>depth\<close> times and the
  Query Expander is called exactly \<open>depth\<close> times. It fails: a call to the model that
  raises ends the run where it stands. With depth 3 and a Query Expander whose first call
  raises the loop body is entered once and the Query Expander is called once; the same
  happens after a first pass that starved.
\<close>

theorem loop_cut_short_counterexample:
  "fst (perform_deep_research scripted ''q'' 3 2 None ([Api_exception], [], []) [])
     = Inl (Gemini_error Model_search)
   \<and> iterations (trace (snd
        (perform_deep_research scripted ''q'' 3 2 None ([Api_exception], [], []) []))) = 1
   \<and> length (calls_of Model_search (trace (snd
        (perform_deep_research scripted ''q'' 3 2 None ([Api_exception], [], []) [])))) = 1
   \<and> iterations (trace (snd
        (perform_deep_research scripted ''q'' 3 2 None ([No_parts, Api_exception], [], []) [])))
       = 2
   \<and> length (calls_of Model_search (trace (snd
        (perform_deep_research scripted ''q'' 3 2 None ([No_parts, Api_exception], [], []) []))))
       = 2"
  by (simp add: run_defs)

text \<open>
  C3 as amended: with \<open>depth\<close> at least 0, so for every depth from 1 to 5, a run that
  returns entered the loop body exactly \<open>depth\<close> times and called the Query Expander
  exactly \<open>depth\<close> times, whatever the queries, the searches and the extractions gave:
  starvation never shortens the loop. The run returns when no call to the model raises.
  In a run that a raising call to the model ends, both counts are at most \<open>depth\<close>.
\<close>

theorem depth_bound:
  assumes "perform_deep_research env initial_query depth breadth existing_findings w h = (r, s)"
    and "0 \<le> depth"
  shows "int (iterations (trace s)) \<le> depth
       \<and> int (length (calls_of Model_search (trace s))) \<le> depth
       \<and> ((\<exists>out. r = Inr out) \<longrightarrow>
            int (iterations (trace s)) = depth
            \<and> int (length (calls_of Model_search (trace s))) = depth)
       \<and> ((\<forall>m p w'. fst (generate_content_async env m p w') \<noteq> Api_exception)
            \<longrightarrow> (\<exists>out. r = Inr out))"
  using perform_deep_research_counts [OF assms(1)] perform_deep_research_returns [OF assms(1)]
    assms(2)
  by auto

theorem depth_bound_witness:
  "(0::int) \<le> 3
   \<and> (\<forall>m p w'. fst (generate_content_async steady m p w') \<noteq> Api_exception)
   \<and> (\<exists>out. fst (perform_deep_research steady ''q'' 3 2 None
                   ([No_parts, Parts ''x'', Parts ''y''], [[], [Some ''u'']], []) []) = Inr out)
   \<and> length (calls_of Model_search (trace (snd (perform_deep_research steady ''q'' 3 2 None
                   ([No_parts, Parts ''x'', Parts ''y''], [[], [Some ''u'']], []) [])))) = 3
   \<and> iterations (trace (snd (perform_deep_research steady ''q'' 3 2 None
                   ([No_parts, Parts ''x'', Parts ''y''], [[], [Some ''u'']], []) []))) = 3
   \<and> calls_of Model_analyze (trace (snd (perform_deep_research steady ''q'' 3 2 None
                   ([No_parts, Parts ''x'', Parts ''y''], [[], [Some ''u'']], []) []))) = []"
proof -
  have "calls_of Model_analyze (trace (snd (perform_deep_research steady ''q'' 3 2 None
                   ([No_parts, Parts ''x'', Parts ''y''], [[], [Some ''u'']], []) []))) = []"
    by (simp add: run_defs)
  then show ?thesis
    using depth_bound [OF surjective_pairing, of 3 steady "''q''" 2 None
        "([No_parts, Parts ''x'', Parts ''y''], [[], [Some ''u'']], [])" "[]"]
      steady_never_raises
    by auto
qed

text \<open>
  C4. For a breadth that is not negative, so for every breadth from 1 to 5, and for every
  answer of the model that did not raise: the Query Expander returns the first \<open>breadth\<close>
  of the stripped non-blank lines of the answer, in order; these are at most \<open>breadth\<close>,
  exactly \<open>breadth\<close> when the answer has that many non-blank lines, and all the non-blank
  lines (none, for an empty answer) when it has fewer.
\<close>

theorem query_expander_breadth_bound:
  assumes "0 \<le> breadth"
    and "fst (generate_content_async env Model_search
                (Search_prompt context (slice_from_neg 5 findings) breadth) (world s)) = out"
    and "out \<noteq> Api_exception"
  shows "\<exists>queries.
           fst (generate_search_queries env context findings breadth s) = Inr queries
         \<and> int (length queries) \<le> breadth
         \<and> queries = take (nat breadth)
             (map strip (filter (\<lambda>l. strip l \<noteq> []) (split_on (CHR 0x0A) [] (answer_text out))))
         \<and> (breadth \<le> int (length (filter (\<lambda>l. strip l \<noteq> [])
                                   (split_on (CHR 0x0A) [] (answer_text out))))
              \<longrightarrow> int (length queries) = breadth)
         \<and> (int (length (filter (\<lambda>l. strip l \<noteq> [])
                          (split_on (CHR 0x0A) [] (answer_text out)))) \<le> breadth
              \<longrightarrow> queries = map strip (filter (\<lambda>l. strip l \<noteq> [])
                                        (split_on (CHR 0x0A) [] (answer_text out))))"
  using assms
  by (cases out)
     (auto simp: generate_search_queries_def call_gemini_api_def parse_queries_def slice_to_def
        answer_text_def split: prod.splits)

theorem query_expander_breadth_bound_witness:
  "(0::int) \<le> 3
   \<and> fst (generate_search_queries scripted ''c'' [] 3
       \<lparr>world = ([Parts (''a'' @ [CHR 0x0A] @ ''b'' @ [CHR 0x0A, CHR 0x0A] @ '' c ''
                         @ [CHR 0x0A] @ ''d'' @ [CHR 0x0A] @ ''e'')], [], []),
        heap = [], trace = []\<rparr>) = Inr [''a'', ''b'', ''c'']"
  using query_expander_breadth_bound [of 3 scripted "''c''" "[]"
     "\<lparr>world = ([Parts (''a'' @ [CHR 0x0A] @ ''b'' @ [CHR 0x0A, CHR 0x0A] @ '' c ''
                         @ [CHR 0x0A] @ ''d'' @ [CHR 0x0A] @ ''e'')], [], []),
        heap = [], trace = []\<rparr>"
     "Parts (''a'' @ [CHR 0x0A] @ ''b'' @ [CHR 0x0A, CHR 0x0A] @ '' c ''
                         @ [CHR 0x0A] @ ''d'' @ [CHR 0x0A] @ ''e'')"]
  by (simp add: run_defs)

text \<open>
  C5. \<open>all_learnings\<close> only grows: its contents after \<open>n\<close> passes through the loop body
  are a prefix of its contents after \<open>n + 1\<close> passes, so its length never decreases and
  every element keeps its position; a run that returns hands back the contents after
  \<open>depth\<close> passes.
\<close>

theorem findings_append_only:
  "prefix (learnings_after env initial_query breadth existing_findings w h n)
          (learnings_after env initial_query breadth existing_findings w h (Suc n))
   \<and> length (learnings_after env initial_query breadth existing_findings w h n)
       \<le> length (learnings_after env initial_query breadth existing_findings w h (Suc n))
   \<and> (\<forall>i < length (learnings_after env initial_query breadth existing_findings w h n).
         learnings_after env initial_query breadth existing_findings w h (Suc n) ! i
           = learnings_after env initial_query breadth existing_findings w h n ! i)
   \<and> (\<forall>out s. perform_deep_research env initial_query depth breadth existing_findings w h
                  = (Inr out, s)
           \<longrightarrow> heap s ! result_learnings out
                 = learnings_after env initial_query breadth existing_findings w h (nat depth))"
proof -
  obtain xs where grow:
    "learnings_after env initial_query breadth existing_findings w h (Suc n)
       = learnings_after env initial_query breadth existing_findings w h n @ xs"
    using learnings_after_step [of env initial_query breadth existing_findings w h n] by blast
  have "heap s ! result_learnings out
          = learnings_after env initial_query breadth existing_findings w h (nat depth)"
    if run: "perform_deep_research env initial_query depth breadth existing_findings w h
               = (Inr out, s)" for out s
    using run
  proof (cases rule: perform_deep_research_cases)
    case (returned a s0 st s1 final_report)
    from returned(1,2) have "learnings_after env initial_query breadth existing_findings w h
        (nat depth) = heap s1 ! a"
      by (simp add: learnings_after_def research_iterations_def)
    with generate_final_report_trace(1) [OF returned(3)] returned(4) show ?thesis by simp
  qed simp_all
  with grow show ?thesis by (simp add: nth_append)
qed

theorem findings_append_only_witness:
  "learnings_after steady ''q'' 1 (Some 0)
       ([Parts ''x'', Parts ''A'', Parts ''y'', Parts ''B''],
        [[Some ''u'']], [page ''t'']) [[''old'']] 0 = [''old'']
   \<and> learnings_after steady ''q'' 1 (Some 0)
       ([Parts ''x'', Parts ''A'', Parts ''y'', Parts ''B''],
        [[Some ''u'']], [page ''t'']) [[''old'']] (Suc 0) = [''old'', ''finding a'']
   \<and> prefix (learnings_after steady ''q'' 1 (Some 0)
               ([Parts ''x'', Parts ''A'', Parts ''y'', Parts ''B''],
                [[Some ''u'']], [page ''t'']) [[''old'']] 0)
             (learnings_after steady ''q'' 1 (Some 0)
               ([Parts ''x'', Parts ''A'', Parts ''y'', Parts ''B''],
                [[Some ''u'']], [page ''t'']) [[''old'']] (Suc 0))
   \<and> learnings_after steady ''q'' 1 (Some 0)
             ([Parts ''x'', Parts ''A'', Parts ''y'', Parts ''B''],
              [[Some ''u'']], [page ''t'']) [[''old'']] (Suc 0) ! 0
       = learnings_after steady ''q'' 1 (Some 0)
               ([Parts ''x'', Parts ''A'', Parts ''y'', Parts ''B''],
                [[Some ''u'']], [page ''t'']) [[''old'']] 0 ! 0"
proof -
  note inst = findings_append_only [of steady "''q''" 1 "Some 0"
        "([Parts ''x'', Parts ''A'', Parts ''y'', Parts ''B''], [[Some ''u'']], [page ''t''])"
        "[[''old'']]" 0 1]
  have before: "learnings_after steady ''q'' 1 (Some 0)
       ([Parts ''x'', Parts ''A'', Parts ''y'', Parts ''B''],
        [[Some ''u'']], [page ''t'']) [[''old'']] 0 = [''old'']"
    by (simp add: run_defs)
  have after: "learnings_after steady ''q'' 1 (Some 0)
       ([Parts ''x'', Parts ''A'', Parts ''y'', Parts ''B''],
        [[Some ''u'']], [page ''t'']) [[''old'']] (Suc 0) = [''old'', ''finding a'']"
    by (simp add: run_defs)
  from inst have grows: "prefix (learnings_after steady ''q'' 1 (Some 0)
               ([Parts ''x'', Parts ''A'', Parts ''y'', Parts ''B''],
                [[Some ''u'']], [page ''t'']) [[''old'']] 0)
             (learnings_after steady ''q'' 1 (Some 0)
               ([Parts ''x'', Parts ''A'', Parts ''y'', Parts ''B''],
                [[Some ''u'']], [page ''t'']) [[''old'']] (Suc 0))"
    by (rule conjunct1)
  from inst before have "learnings_after steady ''q'' 1 (Some 0)
             ([Parts ''x'', Parts ''A'', Parts ''y'', Parts ''B''],
              [[Some ''u'']], [page ''t'']) [[''old'']] (Suc 0) ! 0
       = learnings_after steady ''q'' 1 (Some 0)
               ([Parts ''x'', Parts ''A'', Parts ''y'', Parts ''B''],
                [[Some ''u'']], [page ''t'']) [[''old'']] 0 ! 0"
    by simp
  with before after grows show ?thesis by (intro conjI)
qed

text \<open>
  C6. When a run returns and at least one pass through the loop completed its synthesis,
  the directions returned are those of the last completed synthesis, with nothing of the
  earlier ones.
\<close>

theorem directions_overwrite:
  assumes "perform_deep_research env initial_query depth breadth existing_findings w h
             = (Inr out, s)"
    and "syntheses env (trace s) \<noteq> []"
  shows "result_directions out = directions_key (last (syntheses env (trace s)))"
  using assms(1)
proof (cases rule: perform_deep_research_cases)
  case (returned a s0 st s1 final_report)
  from start_session_spec(1) [OF returned(1)]
  have "final_directions \<lparr>visited_urls = {}, all_sources = [], final_directions = []\<rparr>
          = (if syntheses env (trace s0) = [] then []
             else directions_key (last (syntheses env (trace s0))))"
    by (simp add: syntheses_def)
  from research_loop_directions [OF returned(2) this]
  have "final_directions st = (if syntheses env (trace s1) = [] then []
                               else directions_key (last (syntheses env (trace s1))))" .
  moreover from generate_final_report_trace(5) [OF returned(3)]
  have "syntheses env (trace s) = syntheses env (trace s1)"
    by (simp add: syntheses_def)
  ultimately show ?thesis using returned(4) assms(2) by simp
qed simp_all

theorem directions_overwrite_witness:
  "syntheses steady (trace (snd (perform_deep_research steady ''q'' 2 1 None
       ([Parts ''x'', Parts ''A'', Parts ''y'', Parts ''B'', Parts ''R''],
        [[Some ''u''], [Some ''v'']], [page ''t'', page ''s'']) [])))
     = [\<lparr>learnings_key = [''finding a''], directions_key = [''direction a'']\<rparr>,
        \<lparr>learnings_key = [''finding b''], directions_key = [''direction b'']\<rparr>]
   \<and> (\<exists>out. fst (perform_deep_research steady ''q'' 2 1 None
       ([Parts ''x'', Parts ''A'', Parts ''y'', Parts ''B'', Parts ''R''],
        [[Some ''u''], [Some ''v'']], [page ''t'', page ''s'']) []) = Inr out
        \<and> result_directions out = [''direction b''])"
proof -
  have run: "fst (perform_deep_research steady ''q'' 2 1 None
       ([Parts ''x'', Parts ''A'', Parts ''y'', Parts ''B'', Parts ''R''],
        [[Some ''u''], [Some ''v'']], [page ''t'', page ''s'']) [])
     = Inr \<lparr>result_report = ''R'', result_sources = {''u'', ''v''},
            result_learnings = 1, result_directions = [''direction b'']\<rparr>"
    by (simp add: run_defs)
  have syn: "syntheses steady (trace (snd (perform_deep_research steady ''q'' 2 1 None
       ([Parts ''x'', Parts ''A'', Parts ''y'', Parts ''B'', Parts ''R''],
        [[Some ''u''], [Some ''v'']], [page ''t'', page ''s'']) [])))
     = [\<lparr>learnings_key = [''finding a''], directions_key = [''direction a'']\<rparr>,
        \<lparr>learnings_key = [''finding b''], directions_key = [''direction b'']\<rparr>]"
    by (simp add: run_defs)
  have "perform_deep_research steady ''q'' 2 1 None
       ([Parts ''x'', Parts ''A'', Parts ''y'', Parts ''B'', Parts ''R''],
        [[Some ''u''], [Some ''v'']], [page ''t'', page ''s'']) []
     = (Inr \<lparr>result_report = ''R'', result_sources = {''u'', ''v''},
             result_learnings = 1, result_directions = [''direction b'']\<rparr>,
        snd (perform_deep_research steady ''q'' 2 1 None
       ([Parts ''x'', Parts ''A'', Parts ''y'', Parts ''B'', Parts ''R''],
        [[Some ''u''], [Some ''v'']], [page ''t'', page ''s'']) []))"
    using run by (metis prod.collapse)
  from directions_overwrite [OF this] syn
  have "[''direction b''] = directions_key (last
     [\<lparr>learnings_key = [''finding a''], directions_key = [''direction a'']\<rparr>,
      \<lparr>learnings_key = [''finding b''], directions_key = [''direction b'']\<rparr>])"
    by simp
  with run syn show ?thesis by simp
qed

text \<open>
  C7. The claim: the Report Composer never raises, and returns the fallback document when
  the model call fails. It fails: with findings, an exception of the model call leaves
  \<open>generate_final_report\<close> as it left \<open>_call_gemini_api\<close>.
\<close>

theorem report_composer_raises_counterexample:
  "fst (generate_final_report scripted ''q'' [''f'']
          \<lparr>world = ([Api_exception], [], []), heap = [], trace = []\<rparr>)
     = Inl (Gemini_error Model_report)"
  by (simp add: run_defs)

text \<open>
  C7 as amended: with no findings the Report Composer returns the fixed no-information
  document and leaves the runtime as it was, so the model is not called; with findings, it
  returns the text of the model when there is one, the fallback document when the model
  answers without parts or with an empty text, and it raises when the model call raises.
  The fallback document holds every finding as a bullet, after its explanatory lines.
\<close>

theorem report_composer_cases:
  "generate_final_report env query [] s = (Inr (no_information_report query), s)
   \<and> (findings \<noteq> [] \<longrightarrow>
        fst (generate_final_report env query findings s) =
          (case fst (generate_content_async env Model_report (Report_prompt query findings)
                       (world s)) of
             Api_exception \<Rightarrow> Inl (Gemini_error Model_report)
           | No_parts \<Rightarrow> Inr (fallback_report findings)
           | Parts t \<Rightarrow> Inr (if t = [] then fallback_report findings else t)))
   \<and> (\<forall>l \<in> set findings. sublist (''- '' @ l) (fallback_report findings))"
proof -
  have empty: "generate_final_report env query [] s = (Inr (no_information_report query), s)"
    by (simp add: generate_final_report_def)
  have called: "fst (generate_final_report env query findings s) =
       (case fst (generate_content_async env Model_report (Report_prompt query findings)
                    (world s)) of
          Api_exception \<Rightarrow> Inl (Gemini_error Model_report)
        | No_parts \<Rightarrow> Inr (fallback_report findings)
        | Parts t \<Rightarrow> Inr (if t = [] then fallback_report findings else t))"
    if "findings \<noteq> []"
    using that
    by (auto simp: generate_final_report_def call_gemini_api_def Let_def
        split: prod.splits api_outcome.splits sum.splits)
  have bullets: "sublist (''- '' @ l) (fallback_report findings)" if "l \<in> set findings" for l
  proof -
    from that have "''- '' @ l \<in> set (map (\<lambda>l. ''- '' @ l) findings)" by auto
    from join_contains_element [OF this, of "[CHR 0x0A]"] obtain pre post where
      "join [CHR 0x0A] (map (\<lambda>l. ''- '' @ l) findings) = pre @ (''- '' @ l) @ post" by blast
    then have "fallback_report findings =
        (''# Otchet ne sgenerirovan'' @ [CHR 0x0A, CHR 0x0A]
           @ ''Gemini ne vernul tekst otcheta.'' @ [CHR 0x0A, CHR 0x0A]
           @ ''Sobrannye vyvody:'' @ [CHR 0x0A] @ pre) @ (''- '' @ l) @ post"
      by (simp add: fallback_report_def)
    then show ?thesis unfolding sublist_def by blast
  qed
  from empty called bullets show ?thesis by blast
qed

theorem report_composer_cases_witness:
  "[''f'', ''g''] \<noteq> ([] :: string list)
   \<and> fst (generate_final_report scripted ''q'' [''f'', ''g'']
            \<lparr>world = ([Parts []], [], []), heap = [], trace = []\<rparr>)
       = Inr (fallback_report [''f'', ''g''])
   \<and> fallback_report [''f'', ''g'']
       = ''# Otchet ne sgenerirovan'' @ [CHR 0x0A, CHR 0x0A]
           @ ''Gemini ne vernul tekst otcheta.'' @ [CHR 0x0A, CHR 0x0A]
           @ ''Sobrannye vyvody:'' @ [CHR 0x0A] @ ''- f'' @ [CHR 0x0A] @ ''- g''
   \<and> sublist ''- f'' (fallback_report [''f'', ''g''])
   \<and> sublist ''- g'' (fallback_report [''f'', ''g''])
   \<and> trace (snd (generate_final_report scripted ''q'' []
            \<lparr>world = ([Parts ''R''], [], []), heap = [], trace = []\<rparr>)) = []"
proof -
  note inst = report_composer_cases [of scripted "''q''"
      "\<lparr>world = ([Parts []], [], []), heap = [], trace = []\<rparr>" "[''f'', ''g'']"]
  from inst have "fst (generate_final_report scripted ''q'' [''f'', ''g'']
            \<lparr>world = ([Parts []], [], []), heap = [], trace = []\<rparr>)
       = Inr (fallback_report [''f'', ''g''])"
    by (simp add: scripted_def)
  moreover from inst have "sublist ''- f'' (fallback_report [''f'', ''g''])"
    "sublist ''- g'' (fallback_report [''f'', ''g''])"
    by simp_all
  moreover have "fallback_report [''f'', ''g'']
       = ''# Otchet ne sgenerirovan'' @ [CHR 0x0A, CHR 0x0A]
           @ ''Gemini ne vernul tekst otcheta.'' @ [CHR 0x0A, CHR 0x0A]
           @ ''Sobrannye vyvody:'' @ [CHR 0x0A] @ ''- f'' @ [CHR 0x0A] @ ''- g''"
    by (simp add: fallback_report_def)
  moreover have "trace (snd (generate_final_report scripted ''q'' []
            \<lparr>world = ([Parts ''R''], [], []), heap = [], trace = []\<rparr>)) = []"
    by (simp add: generate_final_report_def)
  moreover have "[''f'', ''g''] \<noteq> ([] :: string list)" by simp
  ultimately show ?thesis by (intro conjI)
qed



text \<open>
  C9. The run copies the caller's list on entry and writes only to the copy: for a
  reference \<open>a\<close> of the caller (an index of the heap \<open>h\<close>), the list at \<open>a\<close> and every
  other list of \<open>h\<close> is the same after the run, whether it returns or raises; and when it
  returns, the findings it hands back are a new list object that starts with the caller's
  findings, in their order.
\<close>

theorem existing_findings_not_mutated:
  assumes "perform_deep_research env initial_query depth breadth (Some a) w h = (r, s)"
    and "a < length h"
  shows "heap s ! a = h ! a
       \<and> take (length h) (heap s) = h
       \<and> (\<forall>out. r = Inr out \<longrightarrow>
            length h \<le> result_learnings out
            \<and> prefix (h ! a) (heap s ! result_learnings out))"
proof -
  have frame: "take (length h) (heap s1) = h \<and> prefix (h ! a) (heap s1 ! ref)"
    if start: "start_session (Some a) w h = (ref, s0)"
      and loop: "research_loop env initial_query ref breadth [0..<nat depth]
         \<lparr>visited_urls = {}, all_sources = [], final_directions = []\<rparr> s0 = (rl, s1)"
    for ref s0 rl s1
  proof -
    from research_loop_heap [OF loop] obtain xs where
      upd: "heap s1 = (heap s0)[ref := heap s0 ! ref @ xs]" ..
    from start_session_spec [OF start] have "length h \<le> ref" "ref < length (heap s0)"
      "take (length h) (heap s0) = h" "heap s0 ! ref = h ! a"
      by simp_all
    with upd show ?thesis by simp
  qed
  have same: "take (length h) (heap s) = h \<Longrightarrow> heap s ! a = h ! a"
    using assms(2) by (metis nth_take)
  from assms(1) show ?thesis
  proof (cases rule: perform_deep_research_cases)
    case (loop_raised ref s0 e)
    from frame [OF loop_raised(1,2)] same loop_raised(3) show ?thesis by simp
  next
    case (composer_raised ref s0 st s1 e)
    from frame [OF composer_raised(1,2)] generate_final_report_trace(1) [OF composer_raised(3)]
      same composer_raised(4)
    show ?thesis by simp
  next
    case (returned ref s0 st s1 final_report)
    from frame [OF returned(1,2)] generate_final_report_trace(1) [OF returned(3)]
      same returned(4) start_session_spec(2) [OF returned(1)]
    show ?thesis by simp
  qed
qed

theorem existing_findings_not_mutated_witness:
  "(0::nat) < length [[''old'']]
   \<and> heap (snd (perform_deep_research steady ''q'' 1 1 (Some 0)
        ([Parts ''x'', Parts ''A'', Parts ''R''], [[Some ''u'']], [page ''t''])
        [[''old'']]))
       = [[''old''], [''old'', ''finding a'']]
   \<and> (\<exists>out. fst (perform_deep_research steady ''q'' 1 1 (Some 0)
        ([Parts ''x'', Parts ''A'', Parts ''R''], [[Some ''u'']], [page ''t''])
        [[''old'']]) = Inr out \<and> result_learnings out = 1)
   \<and> heap (snd (perform_deep_research steady ''q'' 1 1 (Some 0)
        ([Parts ''x'', Parts ''A'', Parts ''R''], [[Some ''u'']], [page ''t''])
        [[''old'']])) ! 0 = [[''old'']] ! 0"
proof -
  have "(0::nat) < length [[''old'' :: string]]" by simp
  from existing_findings_not_mutated [OF surjective_pairing this]
  have "heap (snd (perform_deep_research steady ''q'' 1 1 (Some 0)
        ([Parts ''x'', Parts ''A'', Parts ''R''], [[Some ''u'']], [page ''t''])
        [[''old'']])) ! 0 = [[''old'']] ! 0"
    by (rule conjunct1)
  moreover have "heap (snd (perform_deep_research steady ''q'' 1 1 (Some 0)
        ([Parts ''x'', Parts ''A'', Parts ''R''], [[Some ''u'']], [page ''t''])
        [[''old'']]))
       = [[''old''], [''old'', ''finding a'']]"
    by (simp add: run_defs)
  moreover have "\<exists>out. fst (perform_deep_research steady ''q'' 1 1 (Some 0)
        ([Parts ''x'', Parts ''A'', Parts ''R''], [[Some ''u'']], [page ''t''])
        [[''old'']]) = Inr out \<and> result_learnings out = 1"
    by (simp add: run_defs)
  ultimately show ?thesis by simp
qed

text \<open>
  C10. The claim: a run in which no pass through the loop reaches the synthesis step
  still returns a result. It fails: with existing findings the Report Composer calls the
  model, and when that call raises the run raises. Here the only pass starves on a page
  answered with status 404.
\<close>

theorem starved_run_raises_counterexample:
  "calls_of Model_analyze (trace (snd (perform_deep_research scripted ''q'' 1 1 (Some 0)
        ([Parts ''x'', Api_exception], [[Some ''u'']], [Response 404 None []])
        [[''old'']]))) = []
   \<and> fetched (trace (snd (perform_deep_research scripted ''q'' 1 1 (Some 0)
        ([Parts ''x'', Api_exception], [[Some ''u'']], [Response 404 None []])
        [[''old'']]))) = [''u'']
   \<and> fst (perform_deep_research scripted ''q'' 1 1 (Some 0)
        ([Parts ''x'', Api_exception], [[Some ''u'']], [Response 404 None []])
        [[''old'']]) = Inl (Gemini_error Model_report)"
  by (simp add: run_defs)

text \<open>
  C10 as amended: a run in which no pass through the loop reaches the synthesis step and
  no call to the model raises returns a result: its findings are the existing findings
  (none when none were given), its sources and its directions are empty, and its report
  is the fixed no-information document when there are no findings.
\<close>

theorem starved_run:
  assumes "perform_deep_research env initial_query depth breadth existing_findings w h = (r, s)"
    and "calls_of Model_analyze (trace s) = []"
    and "\<not> gemini_raised (trace s)"
  shows "\<exists>out. r = Inr out
           \<and> heap s ! result_learnings out
               = (case existing_findings of None \<Rightarrow> [] | Some a \<Rightarrow> h ! a)
           \<and> result_sources out = {}
           \<and> result_directions out = []
           \<and> (heap s ! result_learnings out = []
                \<longrightarrow> result_report out = no_information_report initial_query)"
  using assms(1)
proof (cases rule: perform_deep_research_cases)
  case (loop_raised a s0 e)
  from perform_deep_research_raised [OF assms(1)] assms(3) loop_raised(3)
  show ?thesis by simp
next
  case (composer_raised a s0 st s1 e)
  from perform_deep_research_raised [OF assms(1)] assms(3) composer_raised(4)
  show ?thesis by simp
next
  case (returned a s0 st s1 final_report)
  from generate_final_report_trace(1,5) [OF returned(3)] assms(2)
  have heap: "heap s = heap s1" and quiet: "calls_of Model_analyze (trace s1) = []"
    by simp_all
  from research_loop_starved [OF returned(2) quiet]
  have "heap s1 = heap s0" "all_sources st = []" "final_directions st = []"
    by simp_all
  moreover from generate_final_report_spec [OF returned(3)]
  have "heap s1 ! a = [] \<longrightarrow> final_report = no_information_report initial_query"
    by auto
  ultimately show ?thesis
    using heap returned(4) start_session_spec(5) [OF returned(1)] by simp
qed

theorem starved_run_witness:
  "calls_of Model_analyze (trace (snd (perform_deep_research steady ''q'' 2 1 (Some 0)
        ([Parts ''x'', No_parts, Parts ''R''], [[Some ''u'']], [Response 404 None []])
        [[''old'']]))) = []
   \<and> \<not> gemini_raised (trace (snd (perform_deep_research steady ''q'' 2 1 (Some 0)
        ([Parts ''x'', No_parts, Parts ''R''], [[Some ''u'']], [Response 404 None []])
        [[''old'']])))
   \<and> (\<exists>out. fst (perform_deep_research steady ''q'' 2 1 (Some 0)
        ([Parts ''x'', No_parts, Parts ''R''], [[Some ''u'']], [Response 404 None []])
        [[''old'']]) = Inr out
        \<and> heap (snd (perform_deep_research steady ''q'' 2 1 (Some 0)
        ([Parts ''x'', No_parts, Parts ''R''], [[Some ''u'']], [Response 404 None []])
        [[''old'']])) ! result_learnings out = [''old'']
        \<and> result_sources out = {} \<and> result_directions out = [])"
proof -
  have quiet: "calls_of Model_analyze (trace (snd (perform_deep_research steady ''q'' 2 1 (Some 0)
        ([Parts ''x'', No_parts, Parts ''R''], [[Some ''u'']], [Response 404 None []])
        [[''old'']]))) = []"
    by (simp add: run_defs)
  have calm: "\<not> gemini_raised (trace (snd (perform_deep_research steady ''q'' 2 1 (Some 0)
        ([Parts ''x'', No_parts, Parts ''R''], [[Some ''u'']], [Response 404 None []])
        [[''old'']])))"
    by (simp add: run_defs)
  from starved_run [OF surjective_pairing quiet calm] obtain out where
    "fst (perform_deep_research steady ''q'' 2 1 (Some 0)
        ([Parts ''x'', No_parts, Parts ''R''], [[Some ''u'']], [Response 404 None []])
        [[''old'']]) = Inr out"
    "heap (snd (perform_deep_research steady ''q'' 2 1 (Some 0)
        ([Parts ''x'', No_parts, Parts ''R''], [[Some ''u'']], [Response 404 None []])
        [[''old'']])) ! result_learnings out = [[''old'']] ! 0"
    "result_sources out = {}" "result_directions out = []"
    by auto
  then have "\<exists>out. fst (perform_deep_research steady ''q'' 2 1 (Some 0)
        ([Parts ''x'', No_parts, Parts ''R''], [[Some ''u'']], [Response 404 None []])
        [[''old'']]) = Inr out
        \<and> heap (snd (perform_deep_research steady ''q'' 2 1 (Some 0)
        ([Parts ''x'', No_parts, Parts ''R''], [[Some ''u'']], [Response 404 None []])
        [[''old'']])) ! result_learnings out = [''old'']
        \<and> result_sources out = {} \<and> result_directions out = []"
    by (intro exI [of _ out]) simp
  with quiet calm show ?thesis by (intro conjI)
qed

end
